theory Spec2Isabelle
  imports Complex_Main "HOL-Library.List_Lexorder" "HOL-Library.Char_ord" "HOL-Library.Log_Nat"
begin

section \<open>Data model (src/models/types.ts, src/scripts/clean.ts)\<close>

text \<open>
  Identifiers are opaque: a UUID is represented by a natural number, so the format check
  of \<^verbatim>\<open>Joi.string().uuid()\<close> holds by typing. A calendar date (\<^verbatim>\<open>YYYY-MM-DD\<close>) is a
  day number, counted from 1970-01-01; an instant is a number of milliseconds since the
  epoch. A JavaScript number is the rational it denotes; an amount in minor units is an
  integer. Timestamps (\<^verbatim>\<open>created_at\<close>, \<^verbatim>\<open>posted_at\<close>) and the primary key of a journal
  line are left out; a table is the list of its rows in insertion order. A string is
  the list of its characters, taken from the first 256 code points.
\<close>

type_synonym uuid = nat
type_synonym date = int

datatype AccountType = Asset | Liability | Equity | Revenue | Expense

record Account =
  a_id :: uuid
  a_code :: string
  a_name :: string
  a_type :: AccountType

record CreateAccountRequest =
  car_code :: string
  car_name :: string
  car_type :: AccountType

record CreateJournalLineRequest =
  account_code :: string
  debit :: "rat option"
  credit :: "rat option"

record CreateJournalEntryRequest =
  date :: date
  narration :: string
  lines :: "CreateJournalLineRequest list"
  reverses_entry_id :: "uuid option"

record JournalLine =
  entry_id :: uuid
  account_id :: uuid
  line_account_code :: string
  debit_cents :: int
  credit_cents :: int
  line_index :: nat

record JournalEntry =
  je_id :: uuid
  je_date :: date
  je_narration :: string
  je_reverses_entry_id :: "uuid option"
  je_lines :: "JournalLine list"

record AccountBalance =
  ab_account_code :: string
  ab_account_name :: string
  ab_account_type :: AccountType
  ab_debits :: int
  ab_credits :: int
  ab_balance :: int

record TrialBalanceReport =
  tb_from :: date
  tb_to :: date
  tb_accounts :: "AccountBalance list"
  tb_total_debits :: int
  tb_total_credits :: int

text \<open>The rows of the four tables created by the migrations of src/scripts/clean.ts.\<close>

record journal_entries_row =
  r_id :: uuid
  r_date :: date
  r_narration :: string
  r_reverses_entry_id :: "uuid option"

record journal_lines_row =
  l_entry_id :: uuid
  l_account_id :: uuid
  l_debit_cents :: int
  l_credit_cents :: int
  l_line_index :: nat

record idempotency_keys_row =
  k_key :: string
  k_request_hash :: string
  k_entry_id :: uuid

record Database =
  accounts :: "Account list"
  journal_entries :: "journal_entries_row list"
  journal_lines :: "journal_lines_row list"
  idempotency_keys :: "idempotency_keys_row list"

definition empty_db :: Database where
  "empty_db = \<lparr>accounts = [], journal_entries = [], journal_lines = [], idempotency_keys = []\<rparr>"

section \<open>Errors\<close>

text \<open>
  A thrown error is a value. Message templates are constructors that carry the
  interpolated values; the comment after each gives the text of the source.
  A Joi detail is the path of the offending value and the error code of the rule.
\<close>

datatype joi_path =
  At_code | At_name | At_date | At_narration | At_lines | At_to
  | At_line nat | At_line_account_code nat | At_line_debit nat | At_line_credit nat

datatype joi_code =
  string_empty | string_alphanum | string_max | number_min | number_unsafe
  | custom_bothDebitCredit       \<comment> \<open>A line cannot have both debit and credit amounts\<close>
  | custom_neitherDebitCredit    \<comment> \<open>A line must have either a debit or credit amount\<close>
  | array_min                    \<comment> \<open>At least 2 lines are required for a journal entry\<close>
  | custom_unbalanced rat rat    \<comment> \<open>Total debits (..) must equal total credits (..)\<close>
  | custom_zeroAmount            \<comment> \<open>Total amount must be greater than zero\<close>
  | custom_futureDate            \<comment> \<open>Entry date cannot be in the future\<close>
  | custom_invalidDateRange      \<comment> \<open>to date must be greater than or equal to from date\<close>

datatype pg_error =
  unique_violation               \<comment> \<open>SQLSTATE 23505\<close>
  | foreign_key_violation        \<comment> \<open>SQLSTATE 23503\<close>
  | check_violation              \<comment> \<open>SQLSTATE 23514\<close>
  | string_data_right_truncation \<comment> \<open>SQLSTATE 22001\<close>
  | numeric_value_out_of_range   \<comment> \<open>SQLSTATE 22003\<close>

datatype message =
  Joi joi_path joi_code
  | AccountAlreadyExists string          \<comment> \<open>Account with code '..' already exists\<close>
  | AccountNotFound string               \<comment> \<open>Account with code '..' not found\<close>
  | AccountCodeRequired                  \<comment> \<open>Account code is required\<close>
  | AtLeastOneAccountCode                \<comment> \<open>At least one account code is required\<close>
  | InvalidAccountCode string            \<comment> \<open>Invalid account code: '..'\<close>
  | AccountsNotFound "string list"       \<comment> \<open>Accounts not found: .., ..\<close>
  | ReversedEntryNotFound uuid           \<comment> \<open>Reversed entry with ID '..' not found\<close>
  | JournalEntryNotFound uuid            \<comment> \<open>Journal entry with ID '..' not found\<close>
  | AccountAppearsMultipleTimes string   \<comment> \<open>Account '..' appears multiple times in the same entry. ..\<close>
  | AmountsMustBeNonNegative             \<comment> \<open>Debit and credit amounts must be non-negative\<close>
  | LineHasBothDebitAndCredit string     \<comment> \<open>Line for account '..' has both debit and credit amounts. ..\<close>
  | LineHasZeroAmount string             \<comment> \<open>Line for account '..' has zero amount. ..\<close>
  | EntryNotBalanced rat rat             \<comment> \<open>Entry is not balanced. Total debits (..) must equal total credits (..)\<close>
  | TotalMustBePositive                  \<comment> \<open>Journal entry must have a total amount greater than zero\<close>
  | AtLeastTwoLines                      \<comment> \<open>Journal entry must have at least 2 lines\<close>
  | KeyUsedWithDifferentRequest string   \<comment> \<open>Idempotency key '..' already used with different request data\<close>
  | KeyAlreadyExists string              \<comment> \<open>Idempotency key '..' already exists\<close>
  | KeyRequired                          \<comment> \<open>Idempotency key is required and must be a non-empty string\<close>
  | NoBalanceData string                 \<comment> \<open>No balance data found for account '..'\<close>
  | TrialBalanceDoesNotBalance int int   \<comment> \<open>Trial balance does not balance! ..\<close>
  | TypeError                            \<comment> \<open>reading a property of undefined\<close>
  | Pg pg_error                          \<comment> \<open>an error of the database driver\<close>

text \<open>
  \<^verbatim>\<open>ValidationError\<close> carries the list of its messages: \<^verbatim>\<open>validateInput\<close> joins the
  messages of all Joi details with a comma, every other throw has one message.
  \<^verbatim>\<open>InternalError\<close> stands for a plain \<^verbatim>\<open>Error\<close> and for any error that is not a
  \<^verbatim>\<open>LedgerError\<close> (the controllers answer it with status 500).
\<close>

datatype LedgerError =
  ValidationError "message list"
  | NotFoundError message
  | ConflictError message
  | InternalError message

section \<open>JavaScript numbers\<close>

text \<open>
  A number of the source is an IEEE 754 double. The result of \<^verbatim>\<open>*\<close> and \<^verbatim>\<open>/\<close> is the
  exact result rounded to the nearest double, ties to the even significand:
  \<open>binary64\<close> keeps 53 significant bits, and fewer below \<open>2 powi (- 1022)\<close>, where the
  doubles are the multiples of \<open>2 powi (- 1074)\<close>. A product that exceeds the largest
  double (about \<open>1.8e308\<close>) is \<^verbatim>\<open>Infinity\<close> in the source and has no counterpart here.
  Amounts in minor units are added as integers: the sums of the source are sums of
  doubles, which are exact as long as they stay below \<open>2 ^ 53\<close>.
\<close>

definition round_half_even :: "rat \<Rightarrow> int" where
  "round_half_even q =
     (let f = \<lfloor>q\<rfloor>; r = q - of_int f
      in if r < 1 / 2 then f else if r > 1 / 2 then f + 1 else if even f then f else f + 1)"

text \<open>The exponent of the leading bit of a positive number.\<close>

definition ilog2 :: "rat \<Rightarrow> int" where
  "ilog2 x = (case quotient_of x of (p, d) \<Rightarrow>
                let e = bitlen p - bitlen d in if 2 powi e \<le> x then e else e - 1)"

definition binary64 :: "rat \<Rightarrow> rat" where
  "binary64 x =
     (if x = 0 then 0
      else let e = max (ilog2 \<bar>x\<bar> - 52) (- 1074);
               m = round_half_even (\<bar>x\<bar> / 2 powi e)
           in sgn x * of_int m * 2 powi e)"

text \<open>\<^verbatim>\<open>Math.round\<close>: the nearest integer, a tie going up.\<close>

definition Math_round :: "rat \<Rightarrow> int" where
  "Math_round x = \<lfloor>x + 1 / 2\<rfloor>"

definition MAX_SAFE_INTEGER :: rat where
  "MAX_SAFE_INTEGER = 2 ^ 53 - 1"

section \<open>Money (src/utils/money.ts)\<close>

definition toCents :: "rat \<Rightarrow> int" where
  "toCents amount = Math_round (binary64 (amount * 100))"

definition fromCents :: "int \<Rightarrow> rat" where
  "fromCents cents = binary64 (of_int cents / 100)"

text \<open>\<^verbatim>\<open>x || 0\<close> on an optional number.\<close>

definition or0 :: "rat option \<Rightarrow> rat" where
  "or0 x = (case x of None \<Rightarrow> 0 | Some v \<Rightarrow> v)"

section \<open>Input validation (src/utils/validation.ts)\<close>

text \<open>
  The schemas are Joi declarations; \<^verbatim>\<open>validateInput\<close> runs them with
  \<^verbatim>\<open>abortEarly: false\<close>, so the details of all violated rules are collected, key by key
  in the order of the schema, and returns the converted value. As Joi does, a number
  with \<^verbatim>\<open>precision(2)\<close> is rounded to two decimals
  (\<^verbatim>\<open>Math.round(value * 100) / 100\<close>), a number beyond \<^verbatim>\<open>Number.MAX_SAFE_INTEGER\<close> is
  rejected before its rules run, a missing \<^verbatim>\<open>debit\<close> or \<^verbatim>\<open>credit\<close> takes the default
  0, and the custom rule of an object runs only when none of its keys raised an error.
  The items of an array are checked by a rule of the array, the first of its rules: an
  item without error is replaced by its converted value, an item with errors stays as
  it was, and the rules after it (\<^verbatim>\<open>min\<close>, the custom rule) run in either case.
\<close>

definition alphanum :: "char \<Rightarrow> bool" where
  "alphanum c = (c \<in> set ''abcdefghijklmnopqrstuvwxyzABCDEFGHIJKLMNOPQRSTUVWXYZ0123456789'')"

definition joi_code_string :: "joi_path \<Rightarrow> string \<Rightarrow> message list" where
  "joi_code_string p s =
     (if s = [] then [Joi p string_empty]
      else (if list_all alphanum s then [] else [Joi p string_alphanum]) @
           (if length s > 20 then [Joi p string_max] else []))"

definition joi_text :: "joi_path \<Rightarrow> nat \<Rightarrow> string \<Rightarrow> message list" where
  "joi_text p n s =
     (if s = [] then [Joi p string_empty]
      else if length s > n then [Joi p string_max] else [])"

definition precision2 :: "rat \<Rightarrow> rat" where
  "precision2 x = binary64 (of_int (Math_round (binary64 (x * 100))) / 100)"

definition joi_amount :: "joi_path \<Rightarrow> rat option \<Rightarrow> message list \<times> rat" where
  "joi_amount p x =
     (case x of
        None \<Rightarrow> ([], 0)
      | Some y \<Rightarrow>
          let v = precision2 y
          in if y > MAX_SAFE_INTEGER \<or> y < - MAX_SAFE_INTEGER then ([Joi p number_unsafe], v)
             else (if v < 0 then [Joi p number_min] else [], v))"

definition accountSchema :: "CreateAccountRequest \<Rightarrow> message list" where
  "accountSchema r = joi_code_string At_code (car_code r) @ joi_text At_name 100 (car_name r)"

definition journalLineSchema ::
  "nat \<Rightarrow> CreateJournalLineRequest \<Rightarrow> message list \<times> CreateJournalLineRequest" where
  "journalLineSchema i l =
     (let (ed, d) = joi_amount (At_line_debit i) (debit l);
          (ec, c) = joi_amount (At_line_credit i) (credit l);
          members = joi_code_string (At_line_account_code i) (account_code l) @ ed @ ec;
          custom = (if d > 0 \<and> c > 0 then [Joi (At_line i) custom_bothDebitCredit]
                    else if d = 0 \<and> c = 0 then [Joi (At_line i) custom_neitherDebitCredit]
                    else [])
      in (if members \<noteq> [] then members else custom,
          \<lparr>account_code = account_code l, debit = Some d, credit = Some c\<rparr>))"

text \<open>The custom rule of \<^verbatim>\<open>lines\<close>: the loop over the lines, then the two tests.\<close>

fun schema_totals :: "CreateJournalLineRequest list \<Rightarrow> int \<Rightarrow> int \<Rightarrow> int \<times> int" where
  "schema_totals [] totalDebits totalCredits = (totalDebits, totalCredits)"
| "schema_totals (line # rest) totalDebits totalCredits =
     schema_totals rest (totalDebits + Math_round (binary64 (or0 (debit line) * 100)))
                        (totalCredits + Math_round (binary64 (or0 (credit line) * 100)))"

definition lines_custom :: "CreateJournalLineRequest list \<Rightarrow> message list" where
  "lines_custom ls =
     (let (totalDebits, totalCredits) = schema_totals ls 0 0
      in if totalDebits \<noteq> totalCredits
         then [Joi At_lines (custom_unbalanced (binary64 (of_int totalDebits / 100))
                                               (binary64 (of_int totalCredits / 100)))]
         else if totalDebits = 0 then [Joi At_lines custom_zeroAmount]
         else [])"

text \<open>
  The custom rule of \<^verbatim>\<open>date\<close> compares two instants: \<^verbatim>\<open>new Date(value)\<close>, which for a
  calendar date is its midnight in UTC, and \<open>today\<close>, the last millisecond of the
  current day in the time zone of the server (\<^verbatim>\<open>today.setHours(23, 59, 59, 999)\<close>).
\<close>

definition new_Date :: "date \<Rightarrow> int" where
  "new_Date d = d * 86400000"

definition journalEntrySchema ::
  "int \<Rightarrow> CreateJournalEntryRequest \<Rightarrow> message list \<times> CreateJournalEntryRequest" where
  "journalEntrySchema today r =
     (let items = map (\<lambda>(i, l). journalLineSchema i l) (enumerate 0 (lines r));
          item_errors = concat (map fst items);
          ls = map (\<lambda>(l, errors, v). if errors = [] then v else l) (zip (lines r) items);
          e_date = (if new_Date (date r) > today then [Joi At_date custom_futureDate] else []);
          e_narration = joi_text At_narration 500 (narration r);
          e_lines = item_errors @ (if length ls < 2 then [Joi At_lines array_min] else []) @
                    lines_custom ls
      in (e_date @ e_narration @ e_lines, r\<lparr>lines := ls\<rparr>))"

definition trialBalanceQuerySchema :: "date \<Rightarrow> date \<Rightarrow> message list" where
  "trialBalanceQuerySchema fromDate toDate =
     (if toDate < fromDate then [Joi At_to custom_invalidDateRange] else [])"

definition validateInput :: "message list \<times> 'a \<Rightarrow> LedgerError + 'a" where
  "validateInput result =
     (case result of (details, v) \<Rightarrow> if details \<noteq> [] then Inl (ValidationError details) else Inr v)"

section \<open>The double-entry rules (JournalService.validateDoubleEntryRules)\<close>

text \<open>
  The \<^verbatim>\<open>for\<close> loop over the lines, with its three mutable variables as accumulators;
  a \<^verbatim>\<open>throw\<close> leaves the loop with \<open>Inl\<close>.
\<close>

fun rules_loop ::
  "CreateJournalLineRequest list \<Rightarrow> int \<Rightarrow> int \<Rightarrow> string set \<Rightarrow> LedgerError + int \<times> int" where
  "rules_loop [] totalDebits totalCredits accountCodes = Inr (totalDebits, totalCredits)"
| "rules_loop (line # rest) totalDebits totalCredits accountCodes =
     (let debitCents = toCents (or0 (debit line));
          creditCents = toCents (or0 (credit line))
      in if account_code line \<in> accountCodes
           then Inl (ValidationError [AccountAppearsMultipleTimes (account_code line)])
         else if debitCents < 0 \<or> creditCents < 0
           then Inl (ValidationError [AmountsMustBeNonNegative])
         else if debitCents > 0 \<and> creditCents > 0
           then Inl (ValidationError [LineHasBothDebitAndCredit (account_code line)])
         else if debitCents = 0 \<and> creditCents = 0
           then Inl (ValidationError [LineHasZeroAmount (account_code line)])
         else rules_loop rest (totalDebits + debitCents) (totalCredits + creditCents)
                (insert (account_code line) accountCodes))"

definition validateDoubleEntryRules :: "CreateJournalEntryRequest \<Rightarrow> LedgerError + unit" where
  "validateDoubleEntryRules entryData =
     (case rules_loop (lines entryData) 0 0 {} of
        Inl e \<Rightarrow> Inl e
      | Inr (totalDebits, totalCredits) \<Rightarrow>
          if totalDebits \<noteq> totalCredits
            then Inl (ValidationError [EntryNotBalanced (fromCents totalDebits) (fromCents totalCredits)])
          else if totalDebits = 0 then Inl (ValidationError [TotalMustBePositive])
          else if length (lines entryData) < 2 then Inl (ValidationError [AtLeastTwoLines])
          else Inr ())"

section \<open>The environment of a call\<close>

text \<open>
  What a call reads from outside the database: the clock (\<^verbatim>\<open>new Date()\<close>, in
  milliseconds since the epoch), the time zone of the server (as
  \<^verbatim>\<open>getTimezoneOffset()\<close> gives it: UTC minus local time in minutes, positive west of
  Greenwich, taken as constant over the current day), the identifier that \<^verbatim>\<open>uuidv4()\<close>
  returns for the row it creates, and the SHA-256 digest (of the serialised text, given
  here as its syntax tree; a digest is 64 hexadecimal characters, so it always fits the
  column \<^verbatim>\<open>request_hash VARCHAR(64)\<close>).
\<close>

datatype json =
  JStr string | JNum rat | JDate date | JUuid uuid
  | JArr "json list" | JObj "(string \<times> json) list"

record Env =
  now :: int
  getTimezoneOffset :: int
  uuidv4 :: uuid
  sha256 :: "json \<Rightarrow> string"

text \<open>
  The calendar date of the server's local time, and
  \<^verbatim>\<open>const today = new Date(); today.setHours(23, 59, 59, 999)\<close>: the last millisecond
  of the current local day, as an instant.
\<close>

definition local_date :: "Env \<Rightarrow> date" where
  "local_date env = (now env - getTimezoneOffset env * 60000) div 86400000"

definition end_of_today :: "Env \<Rightarrow> int" where
  "end_of_today env =
     (let offset = getTimezoneOffset env * 60000;
          localTime = now env - offset
      in (localTime div 86400000) * 86400000 + 86399999 + offset)"

section \<open>AccountRepository and AccountService\<close>

definition AccountRepository_findByCode :: "Database \<Rightarrow> string \<Rightarrow> Account option" where
  "AccountRepository_findByCode db code = find (\<lambda>a. a_code a = code) (accounts db)"

text \<open>
  The INSERT fails on a value too long for its column and on a duplicate \<^verbatim>\<open>id\<close> or
  \<^verbatim>\<open>code\<close>; the \<^verbatim>\<open>catch\<close> turns every unique violation into a ConflictError.
\<close>

definition AccountRepository_create ::
  "Env \<Rightarrow> Database \<Rightarrow> CreateAccountRequest \<Rightarrow> (LedgerError + Account) \<times> Database" where
  "AccountRepository_create env db accountData =
     (let account = \<lparr>a_id = uuidv4 env, a_code = car_code accountData,
                      a_name = car_name accountData, a_type = car_type accountData\<rparr>
      in if length (a_code account) > 20 \<or> length (a_name account) > 100
           then (Inl (InternalError (Pg string_data_right_truncation)), db)
         else if a_id account \<in> a_id ` set (accounts db) \<or> a_code account \<in> a_code ` set (accounts db)
           then (Inl (ConflictError (AccountAlreadyExists (car_code accountData))), db)
         else (Inr account, db\<lparr>accounts := accounts db @ [account]\<rparr>))"

definition getAccountsByCodesWithValidation :: "Database \<Rightarrow> string list \<Rightarrow> LedgerError + Account list" where
  "getAccountsByCodesWithValidation db codes =
     (if codes = [] then Inr []
      else let result = filter (\<lambda>a. a_code a \<in> set codes) (accounts db);
               foundCodes = map a_code result;
               missingCodes = filter (\<lambda>code. code \<notin> set foundCodes) codes
           in if missingCodes \<noteq> [] then Inl (NotFoundError (AccountsNotFound missingCodes))
              else Inr result)"

definition createAccount ::
  "Env \<Rightarrow> Database \<Rightarrow> CreateAccountRequest \<Rightarrow> (LedgerError + Account) \<times> Database" where
  "createAccount env db accountData =
     (case validateInput (accountSchema accountData, accountData) of
        Inl e \<Rightarrow> (Inl e, db)
      | Inr validatedData \<Rightarrow>
          (case AccountRepository_findByCode db (car_code validatedData) of
             Some existingAccount \<Rightarrow>
               (Inl (ValidationError [AccountAlreadyExists (car_code validatedData)]), db)
           | None \<Rightarrow> AccountRepository_create env db validatedData))"

definition getAccount :: "Database \<Rightarrow> string \<Rightarrow> LedgerError + Account" where
  "getAccount db code =
     (if code = [] then Inl (ValidationError [AccountCodeRequired])
      else case AccountRepository_findByCode db code of
             None \<Rightarrow> Inl (ValidationError [AccountNotFound code])
           | Some account \<Rightarrow> Inr account)"

text \<open>\<^verbatim>\<open>[...new Set(xs)]\<close> keeps the first occurrence of each element.\<close>

definition new_Set :: "'a list \<Rightarrow> 'a list" where
  "new_Set xs = rev (remdups (rev xs))"

text \<open>
  \<^verbatim>\<open>!s || s.trim().length === 0\<close>: \<^verbatim>\<open>trim\<close> removes white space and line terminators,
  which among the first 256 code points are these seven.
\<close>

definition blank :: "string \<Rightarrow> bool" where
  "blank s = list_all (\<lambda>c. c \<in> set [CHR '' '', CHR 0x09, CHR 0x0A, CHR 0x0B, CHR 0x0C, CHR 0x0D,
                                    CHR 0xA0]) s"

definition validateAccountsExist :: "Database \<Rightarrow> string list \<Rightarrow> LedgerError + Account list" where
  "validateAccountsExist db accountCodes =
     (if accountCodes = [] then Inl (ValidationError [AtLeastOneAccountCode])
      else let uniqueCodes = new_Set accountCodes
           in case find blank uniqueCodes of
                Some code \<Rightarrow> Inl (ValidationError [InvalidAccountCode code])
              | None \<Rightarrow> getAccountsByCodesWithValidation db uniqueCodes)"

section \<open>JournalRepository\<close>

text \<open>
  \<^verbatim>\<open>findById\<close>: the entry row, and its lines joined with their accounts, ordered by
  \<^verbatim>\<open>line_index\<close>.
\<close>

definition join_account :: "Database \<Rightarrow> journal_lines_row \<Rightarrow> JournalLine list" where
  "join_account db l =
     map (\<lambda>a. \<lparr>entry_id = l_entry_id l, account_id = l_account_id l, line_account_code = a_code a,
               debit_cents = l_debit_cents l, credit_cents = l_credit_cents l,
               line_index = l_line_index l\<rparr>)
         (filter (\<lambda>a. a_id a = l_account_id l) (accounts db))"

definition JournalRepository_findById :: "Database \<Rightarrow> uuid \<Rightarrow> JournalEntry option" where
  "JournalRepository_findById db id' =
     (case find (\<lambda>e. r_id e = id') (journal_entries db) of
        None \<Rightarrow> None
      | Some entry \<Rightarrow>
          Some \<lparr>je_id = r_id entry, je_date = r_date entry, je_narration = r_narration entry,
                je_reverses_entry_id = r_reverses_entry_id entry,
                je_lines = sort_key line_index
                  (concat (map (join_account db)
                     (filter (\<lambda>l. l_entry_id l = id') (journal_lines db))))\<rparr>)"

text \<open>
  \<^verbatim>\<open>create\<close> runs in one transaction: on any error nothing is written. The INSERT of a
  line fails when an amount does not fit \<^verbatim>\<open>INTEGER\<close>, when the account does not exist,
  or on a CHECK constraint of the table.
\<close>

definition int4 :: "int \<Rightarrow> bool" where
  "int4 n = (- 2147483648 \<le> n \<and> n \<le> 2147483647)"

definition line_checks :: "int \<Rightarrow> int \<Rightarrow> bool" where
  "line_checks d c = (d \<ge> 0 \<and> c \<ge> 0 \<and> ((d > 0 \<and> c = 0) \<or> (d = 0 \<and> c > 0)))"

fun create_lines ::
  "Database \<Rightarrow> (string \<rightharpoonup> Account) \<Rightarrow> uuid \<Rightarrow> nat \<Rightarrow> CreateJournalLineRequest list
     \<Rightarrow> LedgerError + JournalLine list" where
  "create_lines db accountMap entryId i [] = Inr []"
| "create_lines db accountMap entryId i (lineData # rest) =
     (case accountMap (account_code lineData) of
        None \<Rightarrow> Inl (InternalError TypeError)
      | Some account \<Rightarrow>
          let debitCents = toCents (or0 (debit lineData));
              creditCents = toCents (or0 (credit lineData))
          in if \<not> int4 debitCents \<or> \<not> int4 creditCents
               then Inl (InternalError (Pg numeric_value_out_of_range))
             else if a_id account \<notin> a_id ` set (accounts db)
               then Inl (InternalError (Pg foreign_key_violation))
             else if \<not> line_checks debitCents creditCents
               then Inl (InternalError (Pg check_violation))
             else case create_lines db accountMap entryId (Suc i) rest of
                    Inl e \<Rightarrow> Inl e
                  | Inr ls \<Rightarrow>
                      Inr (\<lparr>entry_id = entryId, account_id = a_id account,
                            line_account_code = a_code account, debit_cents = debitCents,
                            credit_cents = creditCents, line_index = i\<rparr> # ls))"

definition line_row :: "JournalLine \<Rightarrow> journal_lines_row" where
  "line_row l = \<lparr>l_entry_id = entry_id l, l_account_id = account_id l,
                 l_debit_cents = debit_cents l, l_credit_cents = credit_cents l,
                 l_line_index = line_index l\<rparr>"

definition JournalRepository_create ::
  "Env \<Rightarrow> Database \<Rightarrow> CreateJournalEntryRequest \<Rightarrow> Account list
     \<Rightarrow> (LedgerError + JournalEntry) \<times> Database" where
  "JournalRepository_create env db entryData accs =
     (let entryId = uuidv4 env;
          ids = r_id ` set (journal_entries db)
      in if entryId \<in> ids then (Inl (InternalError (Pg unique_violation)), db)
         else if (case reverses_entry_id entryData of None \<Rightarrow> False | Some r \<Rightarrow> r \<notin> insert entryId ids)
           then (Inl (InternalError (Pg foreign_key_violation)), db)
         else let accountMap = fold (\<lambda>account m. m(a_code account \<mapsto> account)) accs Map.empty
              in case create_lines db accountMap entryId 0 (lines entryData) of
                   Inl e \<Rightarrow> (Inl e, db)
                 | Inr ls \<Rightarrow>
                     (Inr \<lparr>je_id = entryId, je_date = date entryData,
                           je_narration = narration entryData,
                           je_reverses_entry_id = reverses_entry_id entryData, je_lines = ls\<rparr>,
                      db\<lparr>journal_entries := journal_entries db @
                            [\<lparr>r_id = entryId, r_date = date entryData,
                              r_narration = narration entryData,
                              r_reverses_entry_id = reverses_entry_id entryData\<rparr>],
                         journal_lines := journal_lines db @ map line_row ls\<rparr>))"

section \<open>IdempotencyRepository and IdempotencyService\<close>

text \<open>
  \<^verbatim>\<open>JSON.stringify(value, replacer)\<close> with an array as replacer: of every object, at
  every depth, only the properties named in the array are written, in the order of the
  array; the elements of an array are all written.
\<close>

fun pick :: "string list \<Rightarrow> (string \<times> 'a) list \<Rightarrow> (string \<times> 'a) list" where
  "pick [] kvs = []"
| "pick (k # ks) kvs =
     (case map_of kvs k of None \<Rightarrow> pick ks kvs | Some v \<Rightarrow> (k, v) # pick ks kvs)"

fun JSON_stringify :: "json \<Rightarrow> string list \<Rightarrow> json" where
  "JSON_stringify (JObj kvs) replacer =
     JObj (pick replacer (map (\<lambda>(k, v). (k, JSON_stringify v replacer)) kvs))"
| "JSON_stringify (JArr vs) replacer = JArr (map (\<lambda>v. JSON_stringify v replacer) vs)"
| "JSON_stringify v replacer = v"

fun Object_keys :: "json \<Rightarrow> string list" where
  "Object_keys (JObj kvs) = map fst kvs"
| "Object_keys v = []"

text \<open>The validated request as the object that is hashed.\<close>

definition line_body :: "CreateJournalLineRequest \<Rightarrow> json" where
  "line_body l = JObj [(''account_code'', JStr (account_code l)),
                       (''debit'', JNum (or0 (debit l))), (''credit'', JNum (or0 (credit l)))]"

definition requestBody :: "CreateJournalEntryRequest \<Rightarrow> json" where
  "requestBody r =
     JObj ([(''date'', JDate (date r)), (''narration'', JStr (narration r)),
            (''lines'', JArr (map line_body (lines r)))] @
           (case reverses_entry_id r of None \<Rightarrow> [] | Some i \<Rightarrow> [(''reverses_entry_id'', JUuid i)]))"

definition hashRequest :: "Env \<Rightarrow> json \<Rightarrow> string" where
  "hashRequest env body =
     (let normalizedBody = JSON_stringify body (sort (Object_keys body)) in sha256 env normalizedBody)"

definition IdempotencyRepository_findByKey :: "Database \<Rightarrow> string \<Rightarrow> idempotency_keys_row option" where
  "IdempotencyRepository_findByKey db key = find (\<lambda>r. k_key r = key) (idempotency_keys db)"

text \<open>
  The INSERT fails on a key longer than the column \<^verbatim>\<open>key VARCHAR(255)\<close>, on a key
  that is already there (the \<^verbatim>\<open>catch\<close> makes it a ConflictError) and on an entry that
  does not exist.
\<close>

definition IdempotencyRepository_create ::
  "Env \<Rightarrow> Database \<Rightarrow> string \<Rightarrow> json \<Rightarrow> uuid \<Rightarrow> (LedgerError + idempotency_keys_row) \<times> Database" where
  "IdempotencyRepository_create env db key body entryId =
     (let requestHash = hashRequest env body;
          row = \<lparr>k_key = key, k_request_hash = requestHash, k_entry_id = entryId\<rparr>
      in if length key > 255 then (Inl (InternalError (Pg string_data_right_truncation)), db)
         else if key \<in> k_key ` set (idempotency_keys db)
           then (Inl (ConflictError (KeyAlreadyExists key)), db)
         else if entryId \<notin> r_id ` set (journal_entries db)
           then (Inl (InternalError (Pg foreign_key_violation)), db)
         else (Inr row, db\<lparr>idempotency_keys := idempotency_keys db @ [row]\<rparr>))"

text \<open>
  The result of \<^verbatim>\<open>validateRequest\<close>: \<^verbatim>\<open>{ isValid: true, entryId? }\<close> or
  \<^verbatim>\<open>{ isValid: false, message }\<close>.
\<close>

datatype IdempotencyCheck = Valid "uuid option" | Invalid message

definition IdempotencyRepository_validateRequest ::
  "Env \<Rightarrow> Database \<Rightarrow> string \<Rightarrow> json \<Rightarrow> IdempotencyCheck" where
  "IdempotencyRepository_validateRequest env db key body =
     (case IdempotencyRepository_findByKey db key of
        None \<Rightarrow> Valid None
      | Some existingRecord \<Rightarrow>
          let currentRequestHash = hashRequest env body
          in if k_request_hash existingRecord = currentRequestHash
             then Valid (Some (k_entry_id existingRecord))
             else Invalid (KeyUsedWithDifferentRequest key))"

definition validateRequest :: "Env \<Rightarrow> Database \<Rightarrow> string \<Rightarrow> json \<Rightarrow> LedgerError + IdempotencyCheck" where
  "validateRequest env db key body =
     (if blank key then Inl (InternalError KeyRequired)
      else Inr (IdempotencyRepository_validateRequest env db key body))"

definition recordRequest ::
  "Env \<Rightarrow> Database \<Rightarrow> string \<Rightarrow> json \<Rightarrow> uuid \<Rightarrow> (LedgerError + idempotency_keys_row) \<times> Database" where
  "recordRequest env db key body entryId =
     (if blank key then (Inl (InternalError KeyRequired), db)
      else IdempotencyRepository_create env db key body entryId)"

section \<open>JournalService\<close>

text \<open>
  The block \<^verbatim>\<open>if (idempotencyKey) { .. }\<close> of \<^verbatim>\<open>createJournalEntry\<close>: an error, the
  existing entry of a replayed request, or nothing (the posting goes on). An absent or
  empty key is falsy.
\<close>

definition handle_idempotency ::
  "Env \<Rightarrow> Database \<Rightarrow> CreateJournalEntryRequest \<Rightarrow> string option
     \<Rightarrow> LedgerError + JournalEntry option" where
  "handle_idempotency env db validatedData idempotencyKey =
     (case idempotencyKey of
        None \<Rightarrow> Inr None
      | Some key \<Rightarrow>
          if key = [] then Inr None
          else case validateRequest env db key (requestBody validatedData) of
                 Inl e \<Rightarrow> Inl e
               | Inr (Invalid m) \<Rightarrow> Inl (ConflictError m)
               | Inr (Valid None) \<Rightarrow> Inr None
               | Inr (Valid (Some entryId)) \<Rightarrow> Inr (JournalRepository_findById db entryId))"

text \<open>The checks between the idempotency block and the write.\<close>

definition check_entry ::
  "Database \<Rightarrow> CreateJournalEntryRequest \<Rightarrow> LedgerError + Account list" where
  "check_entry db validatedData =
     (let accountCodes = map account_code (lines validatedData)
      in case validateAccountsExist db accountCodes of
           Inl e \<Rightarrow> Inl e
         | Inr accs \<Rightarrow>
             if (case reverses_entry_id validatedData of
                   None \<Rightarrow> False
                 | Some r \<Rightarrow> JournalRepository_findById db r = None)
             then Inl (ValidationError
                         [ReversedEntryNotFound (case reverses_entry_id validatedData of
                                                    None \<Rightarrow> 0 | Some r \<Rightarrow> r)])
             else case validateDoubleEntryRules validatedData of
                    Inl e \<Rightarrow> Inl e
                  | Inr u \<Rightarrow> Inr accs)"

text \<open>
  The write: \<^verbatim>\<open>journalRepository.create\<close> commits its transaction, then the
  idempotency record is inserted by a statement of its own.
\<close>

definition post_entry ::
  "Env \<Rightarrow> Database \<Rightarrow> CreateJournalEntryRequest \<Rightarrow> Account list \<Rightarrow> string option
     \<Rightarrow> (LedgerError + JournalEntry) \<times> Database" where
  "post_entry env db validatedData accs idempotencyKey =
     (case JournalRepository_create env db validatedData accs of
        (Inl e, db') \<Rightarrow> (Inl e, db')
      | (Inr createdEntry, db') \<Rightarrow>
          (case idempotencyKey of
             None \<Rightarrow> (Inr createdEntry, db')
           | Some key \<Rightarrow>
               if key = [] then (Inr createdEntry, db')
               else case recordRequest env db' key (requestBody validatedData) (je_id createdEntry) of
                      (Inl e, db'') \<Rightarrow> (Inl e, db'')
                    | (Inr r, db'') \<Rightarrow> (Inr createdEntry, db'')))"

definition createJournalEntry ::
  "Env \<Rightarrow> Database \<Rightarrow> CreateJournalEntryRequest \<Rightarrow> string option
     \<Rightarrow> (LedgerError + JournalEntry) \<times> Database" where
  "createJournalEntry env db entryData idempotencyKey =
     (case validateInput (journalEntrySchema (end_of_today env) entryData) of
        Inl e \<Rightarrow> (Inl e, db)
      | Inr validatedData \<Rightarrow>
          (case handle_idempotency env db validatedData idempotencyKey of
             Inl e \<Rightarrow> (Inl e, db)
           | Inr (Some existingEntry) \<Rightarrow> (Inr existingEntry, db)
           | Inr None \<Rightarrow>
               (case check_entry db validatedData of
                  Inl e \<Rightarrow> (Inl e, db)
                | Inr accs \<Rightarrow> post_entry env db validatedData accs idempotencyKey)))"

definition getJournalEntry :: "Database \<Rightarrow> uuid \<Rightarrow> LedgerError + JournalEntry" where
  "getJournalEntry db id' =
     (case JournalRepository_findById db id' of
        None \<Rightarrow> Inl (NotFoundError (JournalEntryNotFound id'))
      | Some entry \<Rightarrow> Inr entry)"

definition reversalLines :: "JournalEntry \<Rightarrow> CreateJournalLineRequest list" where
  "reversalLines originalEntry =
     map (\<lambda>line. \<lparr>account_code = line_account_code line,
                  debit = Some (fromCents (credit_cents line)),
                  credit = Some (fromCents (debit_cents line))\<rparr>)
         (je_lines originalEntry)"

definition createReversalEntry ::
  "Env \<Rightarrow> Database \<Rightarrow> uuid \<Rightarrow> string \<Rightarrow> date \<Rightarrow> string option
     \<Rightarrow> (LedgerError + JournalEntry) \<times> Database" where
  "createReversalEntry env db originalEntryId narration' reversalDate idempotencyKey =
     (case getJournalEntry db originalEntryId of
        Inl e \<Rightarrow> (Inl e, db)
      | Inr originalEntry \<Rightarrow>
          createJournalEntry env db
            \<lparr>date = reversalDate, narration = narration', lines = reversalLines originalEntry,
             reverses_entry_id = Some originalEntryId\<rparr>
            idempotencyKey)"

text \<open>
  The calls of the service are asynchronous: at each \<^verbatim>\<open>await\<close> the event loop may run
  another request, so the statements of two calls can interleave. A call of
  \<^verbatim>\<open>createJournalEntry\<close> is cut here at its two writes: before
  \<^verbatim>\<open>journalRepository.create\<close> (the call has validated its input, looked up its key and
  checked the accounts and the reversed entry) and before \<^verbatim>\<open>recordRequest\<close> (its
  transaction is committed). \<open>resume\<close> runs a call up to its next cut; \<open>run_alone\<close>
  resumes a call three times in a row, which is \<open>createJournalEntry\<close>; \<open>interleave\<close>
  resumes two calls in turn.
\<close>

datatype call =
  Started Env CreateJournalEntryRequest "string option"
  | Checked Env CreateJournalEntryRequest "Account list" "string option"
  | Committed Env CreateJournalEntryRequest JournalEntry string
  | Returned "LedgerError + JournalEntry"

fun resume :: "Database \<Rightarrow> call \<Rightarrow> call \<times> Database" where
  "resume db (Started env entryData idempotencyKey) =
     (case validateInput (journalEntrySchema (end_of_today env) entryData) of
        Inl e \<Rightarrow> (Returned (Inl e), db)
      | Inr validatedData \<Rightarrow>
          (case handle_idempotency env db validatedData idempotencyKey of
             Inl e \<Rightarrow> (Returned (Inl e), db)
           | Inr (Some existingEntry) \<Rightarrow> (Returned (Inr existingEntry), db)
           | Inr None \<Rightarrow>
               (case check_entry db validatedData of
                  Inl e \<Rightarrow> (Returned (Inl e), db)
                | Inr accs \<Rightarrow> (Checked env validatedData accs idempotencyKey, db))))"
| "resume db (Checked env validatedData accs idempotencyKey) =
     (case JournalRepository_create env db validatedData accs of
        (Inl e, db') \<Rightarrow> (Returned (Inl e), db')
      | (Inr createdEntry, db') \<Rightarrow>
          (case idempotencyKey of
             None \<Rightarrow> (Returned (Inr createdEntry), db')
           | Some key \<Rightarrow>
               if key = [] then (Returned (Inr createdEntry), db')
               else (Committed env validatedData createdEntry key, db')))"
| "resume db (Committed env validatedData createdEntry key) =
     (case recordRequest env db key (requestBody validatedData) (je_id createdEntry) of
        (Inl e, db') \<Rightarrow> (Returned (Inl e), db')
      | (Inr r, db') \<Rightarrow> (Returned (Inr createdEntry), db'))"
| "resume db (Returned result) = (Returned result, db)"

text \<open>What a call has returned, if it has.\<close>

fun outcome :: "call \<Rightarrow> (LedgerError + JournalEntry) option" where
  "outcome (Returned result) = Some result"
| "outcome c = None"

definition run_alone :: "Database \<Rightarrow> call \<Rightarrow> call \<times> Database" where
  "run_alone db c =
     (let (c1, db1) = resume db c; (c2, db2) = resume db1 c1 in resume db2 c2)"

fun interleave :: "nat \<Rightarrow> Database \<Rightarrow> call \<Rightarrow> call \<Rightarrow> call \<times> call \<times> Database" where
  "interleave 0 db a b = (a, b, db)"
| "interleave (Suc n) db a b =
     (let (a', db1) = resume db a; (b', db2) = resume db1 b in interleave n db2 a' b')"

section \<open>BalanceRepository and BalanceService\<close>

text \<open>
  The FROM clause of the three balance queries:
  \<^verbatim>\<open>accounts a LEFT JOIN journal_lines jl ON a.id = jl.account_id
  LEFT JOIN journal_entries je ON jl.entry_id = je.id\<close>.
  A row of the join is an account with a line or NULL and an entry or NULL.
\<close>

type_synonym joined = "Account \<times> journal_lines_row option \<times> journal_entries_row option"

definition left_join_lines :: "Database \<Rightarrow> Account \<Rightarrow> (Account \<times> journal_lines_row option) list" where
  "left_join_lines db a =
     (let ls = filter (\<lambda>l. a_id a = l_account_id l) (journal_lines db)
      in if ls = [] then [(a, None)] else map (\<lambda>l. (a, Some l)) ls)"

definition left_join_entries :: "Database \<Rightarrow> Account \<times> journal_lines_row option \<Rightarrow> joined list" where
  "left_join_entries db al =
     (case al of
        (a, None) \<Rightarrow> [(a, None, None)]
      | (a, Some l) \<Rightarrow>
          (let es = filter (\<lambda>e. l_entry_id l = r_id e) (journal_entries db)
           in if es = [] then [(a, Some l, None)] else map (\<lambda>e. (a, Some l, Some e)) es))"

definition from_clause :: "Database \<Rightarrow> joined list" where
  "from_clause db = concat (map (left_join_entries db) (concat (map (left_join_lines db) (accounts db))))"

text \<open>\<^verbatim>\<open>GROUP BY\<close>, \<^verbatim>\<open>SUM\<close> (which skips NULL and is NULL over no value) and \<^verbatim>\<open>COALESCE\<close>.\<close>

definition group_by :: "('r \<Rightarrow> 'k) \<Rightarrow> 'r list \<Rightarrow> ('k \<times> 'r list) list" where
  "group_by key rows = map (\<lambda>k. (k, filter (\<lambda>r. key r = k) rows)) (remdups (map key rows))"

definition sql_SUM :: "int option list \<Rightarrow> int option" where
  "sql_SUM xs = (let vs = concat (map (\<lambda>x. case x of None \<Rightarrow> [] | Some v \<Rightarrow> [v]) xs)
             in if vs = [] then None else Some (sum_list vs))"

definition COALESCE :: "int option \<Rightarrow> int \<Rightarrow> int" where
  "COALESCE x d = (case x of None \<Rightarrow> d | Some v \<Rightarrow> v)"

definition calculateDisplayBalance :: "AccountType \<Rightarrow> int \<Rightarrow> int \<Rightarrow> int" where
  "calculateDisplayBalance accountType debits credits =
     (let netAmount = debits - credits
      in if accountType = Liability \<or> accountType = Equity \<or> accountType = Revenue
         then netAmount else netAmount)"

text \<open>The SELECT list over one group, and the object built from the row.\<close>

definition balance_row :: "Account \<times> joined list \<Rightarrow> AccountBalance" where
  "balance_row g =
     (case g of (a, rows) \<Rightarrow>
        let debits = COALESCE (sql_SUM (map (\<lambda>(a, jl, je). map_option l_debit_cents jl) rows)) 0;
            credits = COALESCE (sql_SUM (map (\<lambda>(a, jl, je). map_option l_credit_cents jl) rows)) 0
        in \<lparr>ab_account_code = a_code a, ab_account_name = a_name a, ab_account_type = a_type a,
            ab_debits = debits, ab_credits = credits,
            ab_balance = calculateDisplayBalance (a_type a) debits credits\<rparr>)"

text \<open>A comparison with NULL is not true, so \<^verbatim>\<open>je.date <= $2\<close> drops a row without entry.\<close>

definition getAccountBalance :: "Database \<Rightarrow> string \<Rightarrow> date option \<Rightarrow> AccountBalance option" where
  "getAccountBalance db accountCode asOfDate =
     (let rows = filter (\<lambda>(a, jl, je).
                    a_code a = accountCode \<and>
                    (case asOfDate of
                       None \<Rightarrow> True
                     | Some d \<Rightarrow> (case je of None \<Rightarrow> False | Some e \<Rightarrow> r_date e \<le> d)))
                  (from_clause db);
          result = map balance_row (group_by fst rows)
      in case result of [] \<Rightarrow> None | row # rest \<Rightarrow> Some row)"

definition getTrialBalance :: "Database \<Rightarrow> date \<Rightarrow> date \<Rightarrow> TrialBalanceReport" where
  "getTrialBalance db fromDate toDate =
     (let rows = filter (\<lambda>(a, jl, je).
                    (case je of None \<Rightarrow> True | Some e \<Rightarrow> r_date e \<ge> fromDate \<and> r_date e \<le> toDate))
                  (from_clause db);
          result = sort_key (\<lambda>(a, g). a_code a) (group_by fst rows);
          accs = map balance_row result
      in \<lparr>tb_from = fromDate, tb_to = toDate, tb_accounts = accs,
          tb_total_debits = sum_list (map ab_debits accs),
          tb_total_credits = sum_list (map ab_credits accs)\<rparr>)"

definition BalanceService_getAccountBalance ::
  "Database \<Rightarrow> string \<Rightarrow> date option \<Rightarrow> LedgerError + AccountBalance" where
  "BalanceService_getAccountBalance db accountCode asOfDate =
     (if accountCode = [] then Inl (ValidationError [AccountCodeRequired])
      else case getAccount db accountCode of
             Inl e \<Rightarrow> Inl e
           | Inr account \<Rightarrow>
               (case getAccountBalance db accountCode asOfDate of
                  None \<Rightarrow> Inl (NotFoundError (NoBalanceData accountCode))
                | Some balance \<Rightarrow> Inr balance))"

definition BalanceService_getTrialBalance ::
  "Database \<Rightarrow> date \<Rightarrow> date \<Rightarrow> LedgerError + TrialBalanceReport" where
  "BalanceService_getTrialBalance db fromDate toDate =
     (case validateInput (trialBalanceQuerySchema fromDate toDate, ()) of
        Inl e \<Rightarrow> Inl e
      | Inr u \<Rightarrow>
          let trialBalance = getTrialBalance db fromDate toDate
          in if tb_total_debits trialBalance \<noteq> tb_total_credits trialBalance
             then Inl (InternalError (TrialBalanceDoesNotBalance
                         (tb_total_debits trialBalance) (tb_total_credits trialBalance)))
             else Inr trialBalance)"

section \<open>Notions used by the properties\<close>

text \<open>The amounts of a requested line in minor units, as every consumer computes them.\<close>

definition cents_debit :: "CreateJournalLineRequest \<Rightarrow> int" where
  "cents_debit l = toCents (or0 (debit l))"

definition cents_credit :: "CreateJournalLineRequest \<Rightarrow> int" where
  "cents_credit l = toCents (or0 (credit l))"

definition one_sided :: "int \<Rightarrow> int \<Rightarrow> bool" where
  "one_sided d c = ((d > 0 \<and> c = 0) \<or> (d = 0 \<and> c > 0))"







text \<open>
  The states the operations of the services can produce from the empty database, and
  the integrity the tables then have: the keys are unique, a line refers to an entry and
  an account that exist, the lines of an entry are numbered from 0 in the order of
  insertion, and an idempotency record refers to an entry that exists.
\<close>

inductive reachable :: "Database \<Rightarrow> bool" where
  reachable_empty: "reachable empty_db"
| reachable_createAccount:
    "reachable db \<Longrightarrow> reachable (snd (createAccount env db accountData))"
| reachable_createJournalEntry:
    "reachable db \<Longrightarrow> reachable (snd (createJournalEntry env db entryData idempotencyKey))"
| reachable_createReversalEntry:
    "reachable db \<Longrightarrow>
       reachable (snd (createReversalEntry env db originalEntryId narration' reversalDate idempotencyKey))"

text \<open>
  The states that calls can produce when they interleave: any call, at any of its cuts
  and with whatever it read before, may be the next to run.
\<close>

inductive interleaved :: "Database \<Rightarrow> bool" where
  interleaved_empty: "interleaved empty_db"
| interleaved_createAccount:
    "interleaved db \<Longrightarrow> interleaved (snd (createAccount env db accountData))"
| interleaved_resume:
    "interleaved db \<Longrightarrow> interleaved (snd (resume db c))"

definition mapped_entries_exist :: "Database \<Rightarrow> bool" where
  "mapped_entries_exist db =
     (\<forall>k \<in> set (idempotency_keys db). k_entry_id k \<in> r_id ` set (journal_entries db))"

definition lines_of :: "Database \<Rightarrow> uuid \<Rightarrow> journal_lines_row list" where
  "lines_of db k = filter (\<lambda>l. l_entry_id l = k) (journal_lines db)"

definition total_debits :: "journal_lines_row list \<Rightarrow> int" where
  "total_debits ls = sum_list (map l_debit_cents ls)"

definition total_credits :: "journal_lines_row list \<Rightarrow> int" where
  "total_credits ls = sum_list (map l_credit_cents ls)"

definition integrity :: "Database \<Rightarrow> bool" where
  "integrity db =
     (distinct (map a_id (accounts db)) \<and> distinct (map a_code (accounts db)) \<and>
      distinct (map r_id (journal_entries db)) \<and> distinct (map k_key (idempotency_keys db)) \<and>
      (\<forall>l \<in> set (journal_lines db).
         l_entry_id l \<in> r_id ` set (journal_entries db) \<and>
         l_account_id l \<in> a_id ` set (accounts db)) \<and>
      (\<forall>e \<in> set (journal_entries db).
         map l_line_index (lines_of db (r_id e)) = [0..<length (lines_of db (r_id e))]) \<and>
      (\<forall>k \<in> set (idempotency_keys db). k_entry_id k \<in> r_id ` set (journal_entries db)))"

text \<open>Every stored amount passed the range check of its \<^verbatim>\<open>INTEGER\<close> column.\<close>

definition amounts_int4 :: "Database \<Rightarrow> bool" where
  "amounts_int4 db =
     (\<forall>l \<in> set (journal_lines db). int4 (l_debit_cents l) \<and> int4 (l_credit_cents l))"

text \<open>The ledger invariant of the specification, on the rows of the tables.\<close>

definition ledger_balanced :: "Database \<Rightarrow> bool" where
  "ledger_balanced db =
     (\<forall>e \<in> set (journal_entries db).
        total_debits (lines_of db (r_id e)) = total_credits (lines_of db (r_id e)) \<and>
        0 < total_debits (lines_of db (r_id e)))"

text \<open>
  A stand-in for the digest in the examples: the text of the value itself, numbers in
  unary, so that values that differ have digests that differ.
\<close>

definition render_int :: "int \<Rightarrow> string" where
  "render_int i = (if i < 0 then ''-'' else ''+'') @ replicate (nat \<bar>i\<bar>) CHR ''i''"

fun render :: "json \<Rightarrow> string" where
  "render (JStr s) = ''<'' @ s @ ''>''"
| "render (JNum q) = (case quotient_of q of (a, b) \<Rightarrow> render_int a @ ''/'' @ render_int b)"
| "render (JDate d) = ''d'' @ render_int d"
| "render (JUuid u) = ''u'' @ render_int (int u)"
| "render (JArr vs) = ''['' @ concat (map (\<lambda>v. render v @ '','') vs) @ '']''"
| "render (JObj kvs) = ''{'' @ concat (map (\<lambda>(k, v). k @ '':'' @ render v @ '','') kvs) @ ''}''"

text \<open>
  The scenario of the specification (section 8): four accounts and three postings,
  the first of them with an idempotency key. The server runs in UTC and the clock shows
  noon of day 100; \<open>west_env\<close> is a server five hours west of Greenwich at 15:00 UTC
  of the same day, which is 10:00 of day 100 there.
\<close>

definition west_env :: "uuid \<Rightarrow> Env" where
  "west_env u = \<lparr>now = 8694000000, getTimezoneOffset = 300, uuidv4 = u, sha256 = render\<rparr>"

definition scenario_env :: "uuid \<Rightarrow> Env" where
  "scenario_env u = \<lparr>now = 8683200000, getTimezoneOffset = 0, uuidv4 = u, sha256 = render\<rparr>"

definition dr :: "string \<Rightarrow> rat \<Rightarrow> CreateJournalLineRequest" where
  "dr c x = \<lparr>account_code = c, debit = Some x, credit = None\<rparr>"

definition cr :: "string \<Rightarrow> rat \<Rightarrow> CreateJournalLineRequest" where
  "cr c x = \<lparr>account_code = c, debit = None, credit = Some x\<rparr>"

definition scenario_accounts :: Database where
  "scenario_accounts =
     snd (createAccount (scenario_env 4)
       (snd (createAccount (scenario_env 3)
         (snd (createAccount (scenario_env 2)
           (snd (createAccount (scenario_env 1) empty_db
              \<lparr>car_code = ''1001'', car_name = ''Cash'', car_type = Asset\<rparr>))
           \<lparr>car_code = ''3001'', car_name = ''Capital'', car_type = Equity\<rparr>))
         \<lparr>car_code = ''4001'', car_name = ''Sales'', car_type = Revenue\<rparr>))
       \<lparr>car_code = ''5001'', car_name = ''Rent'', car_type = Expense\<rparr>)"

definition seed_capital :: CreateJournalEntryRequest where
  "seed_capital = \<lparr>date = 1, narration = ''Seed capital'',
                    lines = [dr ''1001'' 1000, cr ''3001'' 1000], reverses_entry_id = None\<rparr>"

definition cash_sale :: CreateJournalEntryRequest where
  "cash_sale = \<lparr>date = 5, narration = ''Cash sale'',
                 lines = [dr ''1001'' 500, cr ''4001'' 500], reverses_entry_id = None\<rparr>"

definition office_rent :: CreateJournalEntryRequest where
  "office_rent = \<lparr>date = 7, narration = ''Office rent'',
                   lines = [dr ''5001'' 200, cr ''1001'' 200], reverses_entry_id = None\<rparr>"

definition scenario_seeded :: Database where
  "scenario_seeded = snd (createJournalEntry (scenario_env 10) scenario_accounts seed_capital (Some ''key-1''))"

definition scenario_ledger :: Database where
  "scenario_ledger =
     snd (createJournalEntry (scenario_env 12)
       (snd (createJournalEntry (scenario_env 11) scenario_seeded cash_sale None))
       office_rent None)"

text \<open>The row that \<^verbatim>\<open>JournalRepository.create\<close> inserts into \<^verbatim>\<open>journal_entries\<close>.\<close>

definition new_entry_row :: "Env \<Rightarrow> CreateJournalEntryRequest \<Rightarrow> journal_entries_row" where
  "new_entry_row env r = \<lparr>r_id = uuidv4 env, r_date = date r, r_narration = narration r,
                           r_reverses_entry_id = reverses_entry_id r\<rparr>"

text \<open>What a row of the join adds to a \<^verbatim>\<open>SUM\<close> over a column of its line, and the WHERE clause of the trial balance.\<close>

definition row_val :: "(journal_lines_row \<Rightarrow> int) \<Rightarrow> joined \<Rightarrow> int" where
  "row_val f r = (case r of (a, jl, je) \<Rightarrow> (case jl of None \<Rightarrow> 0 | Some l \<Rightarrow> f l))"

definition in_range :: "date \<Rightarrow> date \<Rightarrow> joined \<Rightarrow> bool" where
  "in_range fromDate toDate r =
     (case r of (a, jl, je) \<Rightarrow>
        (case je of None \<Rightarrow> True | Some e \<Rightarrow> r_date e \<ge> fromDate \<and> r_date e \<le> toDate))"

text \<open>Whether the WHERE clause of the trial balance keeps the rows of a line.\<close>

definition line_in_range :: "Database \<Rightarrow> date \<Rightarrow> date \<Rightarrow> journal_lines_row \<Rightarrow> bool" where
  "line_in_range db fromDate toDate l =
     (case find (\<lambda>e. l_entry_id l = r_id e) (journal_entries db) of
        None \<Rightarrow> True
      | Some e \<Rightarrow> r_date e \<ge> fromDate \<and> r_date e \<le> toDate)"

text \<open>
  Requests of the examples: a balanced entry that names one account twice and reverses an
  entry that does not exist, and an entry with a single line.
\<close>

definition twice_and_dangling :: CreateJournalEntryRequest where
  "twice_and_dangling = \<lparr>date = 8, narration = ''Transfer'',
                          lines = [dr ''1001'' 77, cr ''1001'' 77], reverses_entry_id = Some 99\<rparr>"



text \<open>The cash sale as it is posted with identifier 13 on day 100.\<close>

definition sale_posted :: JournalEntry where
  "sale_posted =
     \<lparr>je_id = 13, je_date = 100, je_narration = ''Cash sale'', je_reverses_entry_id = None,
      je_lines =
        [\<lparr>entry_id = 13, account_id = 1, line_account_code = ''1001'',
          debit_cents = 50000, credit_cents = 0, line_index = 0\<rparr>,
         \<lparr>entry_id = 13, account_id = 3, line_account_code = ''4001'',
          debit_cents = 0, credit_cents = 50000, line_index = 1\<rparr>]\<rparr>"

text \<open>
  Two requests with the same body and the same key, received one after the other while
  the first is still running: each is resumed in turn.
\<close>

definition raced ::
  "(LedgerError + JournalEntry) option \<times> (LedgerError + JournalEntry) option \<times> Database" where
  "raced =
     (case interleave 3 scenario_ledger
             (Started (scenario_env 13) cash_sale (Some ''key-2''))
             (Started (scenario_env 14) cash_sale (Some ''key-2'')) of
        (a, b, db) \<Rightarrow> (outcome a, outcome b, db))"

text \<open>What the two callers receive, and the tables after both calls have returned.\<close>

definition raced_first :: "(LedgerError + JournalEntry) option" where
  "raced_first = fst raced"

definition raced_second :: "(LedgerError + JournalEntry) option" where
  "raced_second = fst (snd raced)"

definition raced_db :: Database where
  "raced_db = snd (snd raced)"

text \<open>
  Another request of the examples: the seed capital posting with other accounts and
  other amounts on its two lines.
\<close>

definition other_lines :: CreateJournalEntryRequest where
  "other_lines = seed_capital\<lparr>lines := [dr ''5001'' 77, cr ''4001'' 77]\<rparr>"

text \<open>How the lines of a reversal relate to the lines of the entry it reverses.\<close>

definition swapped_line :: "JournalLine \<Rightarrow> JournalLine \<Rightarrow> bool" where
  "swapped_line r l =
     (line_index r = line_index l \<and> account_id r = account_id l \<and>
      line_account_code r = line_account_code l \<and>
      debit_cents r = credit_cents l \<and> credit_cents r = debit_cents l)"

definition same_amounts :: "JournalLine \<Rightarrow> JournalLine \<Rightarrow> bool" where
  "same_amounts r l =
     (line_index r = line_index l \<and> account_id r = account_id l \<and>
      line_account_code r = line_account_code l \<and>
      debit_cents r = debit_cents l \<and> credit_cents r = credit_cents l)"

text \<open>A line as \<^verbatim>\<open>findById\<close> returns it, and the row it is read from.\<close>

definition joined_with :: "Database \<Rightarrow> JournalLine \<Rightarrow> journal_lines_row \<Rightarrow> bool" where
  "joined_with db j l =
     (line_row j = l \<and> (\<exists>a \<in> set (accounts db). a_id a = account_id j \<and> a_code a = line_account_code j))"

text \<open>The entry that the first posting of the scenario returns.\<close>

definition seed_entry :: JournalEntry where
  "seed_entry =
     \<lparr>je_id = 10, je_date = 1, je_narration = ''Seed capital'', je_reverses_entry_id = None,
      je_lines =
        [\<lparr>entry_id = 10, account_id = 1, line_account_code = ''1001'',
          debit_cents = 100000, credit_cents = 0, line_index = 0\<rparr>,
         \<lparr>entry_id = 10, account_id = 2, line_account_code = ''3001'',
          debit_cents = 0, credit_cents = 100000, line_index = 1\<rparr>]\<rparr>"

text \<open>The seed entry reversed, and the reversal reversed, in the example ledger.\<close>

definition reversal_of_seed :: JournalEntry where
  "reversal_of_seed =
     \<lparr>je_id = 13, je_date = 8, je_narration = ''Reversal of seed capital'',
      je_reverses_entry_id = Some 10,
      je_lines =
        [\<lparr>entry_id = 13, account_id = 1, line_account_code = ''1001'',
          debit_cents = 0, credit_cents = 100000, line_index = 0\<rparr>,
         \<lparr>entry_id = 13, account_id = 2, line_account_code = ''3001'',
          debit_cents = 100000, credit_cents = 0, line_index = 1\<rparr>]\<rparr>"

definition seed_restored :: JournalEntry where
  "seed_restored =
     \<lparr>je_id = 14, je_date = 9, je_narration = ''Seed capital again'',
      je_reverses_entry_id = Some 13,
      je_lines =
        [\<lparr>entry_id = 14, account_id = 1, line_account_code = ''1001'',
          debit_cents = 100000, credit_cents = 0, line_index = 0\<rparr>,
         \<lparr>entry_id = 14, account_id = 2, line_account_code = ''3001'',
          debit_cents = 0, credit_cents = 100000, line_index = 1\<rparr>]\<rparr>"

definition scenario_reversed :: Database where
  "scenario_reversed =
     snd (createReversalEntry (scenario_env 13) scenario_ledger 10
            ''Reversal of seed capital'' 8 None)"

definition scenario_restored :: Database where
  "scenario_restored =
     snd (createReversalEntry (scenario_env 14) scenario_reversed 13
            ''Seed capital again'' 9 None)"

section \<open>Properties\<close>

subsection \<open>Rounding\<close>

lemma round_half_even_err: "\<bar>of_int (round_half_even q) - q\<bar> \<le> 1 / 2"
  unfolding round_half_even_def Let_def by (auto simp: abs_if) linarith+

lemma of_int_bitlen_bounds:
  assumes "0 < (p::int)"
  shows "2 powi (bitlen p - 1) \<le> (of_int p :: rat)" "(of_int p :: rat) < 2 powi (bitlen p)"
proof -
  from bitlen_bounds[OF assms]
  have 1: "2 ^ nat (bitlen p - 1) \<le> p" and 2: "p < 2 ^ nat (bitlen p)" by simp_all
  have b: "1 \<le> bitlen p" using assms by (simp add: bitlen_alt_def)
  from 1 have "(of_int (2 ^ nat (bitlen p - 1)) :: rat) \<le> of_int p" by (simp only: of_int_le_iff)
  then show "2 powi (bitlen p - 1) \<le> (of_int p :: rat)" using b by (simp add: power_int_def)
  from 2 have "(of_int p :: rat) < of_int (2 ^ nat (bitlen p))" by (simp only: of_int_less_iff)
  then show "(of_int p :: rat) < 2 powi (bitlen p)" using b by (simp add: power_int_def)
qed

lemma ilog2_bounds:
  assumes "0 < x"
  shows "2 powi (ilog2 x) \<le> x" "x < 2 powi (ilog2 x + 1)"
proof -
  obtain p d where q: "quotient_of x = (p, d)" by (cases "quotient_of x")
  from quotient_of_denom_pos[OF q] have d: "0 < d" .
  from quotient_of_div[OF q] have x: "x = of_int p / of_int d" .
  from assms x d have p: "0 < p" by (simp add: zero_less_divide_iff)
  define a where "a = bitlen p"
  define b where "b = bitlen d"
  note P = of_int_bitlen_bounds[OF p, folded a_def]
  note D = of_int_bitlen_bounds[OF d, folded b_def]
  have pos: "(0::rat) < 2 powi n" for n by simp
  have up: "x < 2 powi (a - b + 1)"
  proof -
    have "x < 2 powi a / of_int d" unfolding x using P(2) d by (simp add: divide_strict_right_mono)
    also have "\<dots> \<le> 2 powi a / 2 powi (b - 1)"
      using D(1) pos[of "b - 1"] d by (intro divide_left_mono) (auto intro: mult_pos_pos)
    also have "\<dots> = 2 powi (a - b + 1)"
      using power_int_diff[of "2::rat" a "b - 1"] by (simp add: algebra_simps)
    finally show ?thesis .
  qed
  have lo: "2 powi (a - b - 1) \<le> x"
  proof -
    have "2 powi (a - b - 1) = 2 powi (a - 1) / (2 powi b :: rat)"
      using power_int_diff[of "2::rat" "a - 1" b] by (simp add: algebra_simps)
    also have "\<dots> \<le> of_int p / 2 powi b" using P(1) by (simp add: divide_right_mono)
    also have "\<dots> \<le> of_int p / of_int d"
      using D(2) p d pos[of b] by (intro divide_left_mono) (auto intro: mult_pos_pos)
    finally show ?thesis unfolding x .
  qed
  show "2 powi (ilog2 x) \<le> x" unfolding ilog2_def q using lo by (simp add: Let_def a_def b_def)
  show "x < 2 powi (ilog2 x + 1)" unfolding ilog2_def q using up by (simp add: Let_def a_def b_def)
qed

lemma tiny: "2 powi (- 1022) \<le> (1 / 100 :: rat)"
proof -
  have "(2::rat) powi (- 1022) \<le> 2 powi (- 7)" by (intro power_int_increasing) auto
  also have "\<dots> \<le> 1 / 100" by (simp add: power_int_minus_divide)
  finally show ?thesis .
qed

lemma binary64_0 [simp]: "binary64 0 = 0"
  by (simp add: binary64_def)

lemma binary64_err:
  assumes "2 powi (- 1022) \<le> \<bar>x\<bar>"
  shows "\<bar>binary64 x - x\<bar> \<le> \<bar>x\<bar> / 2 ^ 53"
proof -
  have p: "(0::rat) < 2 powi n" for n by simp
  from assms p[of "- 1022"] have x0: "0 < \<bar>x\<bar>" by linarith
  then have xn: "x \<noteq> 0" by auto
  define L where "L = ilog2 \<bar>x\<bar>"
  from ilog2_bounds[OF x0] have lo: "2 powi L \<le> \<bar>x\<bar>" and hi: "\<bar>x\<bar> < 2 powi (L + 1)"
    by (simp_all add: L_def)
  have L: "- 1022 \<le> L"
  proof (rule ccontr)
    assume "\<not> - 1022 \<le> L"
    then have "L + 1 \<le> - 1022" by simp
    then have "(2::rat) powi (L + 1) \<le> 2 powi (- 1022)" by (intro power_int_increasing) auto
    with hi assms show False by linarith
  qed
  define e where "e = L - 52"
  define m where "m = round_half_even (\<bar>x\<bar> / 2 powi e)"
  from L have mx: "max (ilog2 \<bar>x\<bar> - 52) (- 1074) = e" by (simp add: e_def L_def)
  have b: "binary64 x = sgn x * (of_int m * 2 powi e)"
    using xn by (simp add: binary64_def Let_def mx m_def)
  have "binary64 x - x = sgn x * (of_int m * 2 powi e - \<bar>x\<bar>)"
    unfolding b by (simp add: algebra_simps sgn_if abs_if)
  then have "\<bar>binary64 x - x\<bar> = \<bar>of_int m * 2 powi e - \<bar>x\<bar>\<bar>"
    using xn by (simp add: abs_mult sgn_if)
  also have "\<dots> = \<bar>of_int m - \<bar>x\<bar> / 2 powi e\<bar> * 2 powi e"
  proof -
    have "of_int m * 2 powi e - \<bar>x\<bar> = (of_int m - \<bar>x\<bar> / 2 powi e) * 2 powi e"
      using p[of e] by (simp add: field_simps)
    then show ?thesis using p[of e] by (simp add: abs_mult)
  qed
  also have "\<dots> \<le> 1 / 2 * 2 powi e"
    using round_half_even_err[of "\<bar>x\<bar> / 2 powi e"] p[of e]
    unfolding m_def by (intro mult_right_mono) simp_all
  also have "\<dots> = 2 powi L / 2 ^ 53"
    using power_int_diff[of "2::rat" L 53] by (simp add: e_def power_int_diff)
  also have "\<dots> \<le> \<bar>x\<bar> / 2 ^ 53" using lo by (simp add: divide_right_mono)
  finally show ?thesis .
qed

lemma binary64_sign:
  assumes "2 powi (- 1022) \<le> \<bar>x\<bar>"
  shows "0 < binary64 x \<longleftrightarrow> 0 < x" "binary64 x < 0 \<longleftrightarrow> x < 0" "binary64 x = 0 \<longleftrightarrow> x = 0"
proof -
  have p: "(0::rat) < 2 powi n" for n by simp
  from assms p[of "- 1022"] have x0: "0 < \<bar>x\<bar>" by linarith
  have "\<bar>x\<bar> / 2 ^ 53 < \<bar>x\<bar>" using x0 by (simp add: field_simps)
  with binary64_err[OF assms] have e: "\<bar>binary64 x - x\<bar> < \<bar>x\<bar>" by linarith
  from e show "0 < binary64 x \<longleftrightarrow> 0 < x" by (auto simp: abs_if split: if_splits)
  from e show "binary64 x < 0 \<longleftrightarrow> x < 0" by (auto simp: abs_if split: if_splits)
  from e show "binary64 x = 0 \<longleftrightarrow> x = 0" by (auto simp: abs_if split: if_splits)
qed

subsection \<open>The tables of the scenario\<close>

lemma scenario_accounts_rows [code]:
  "scenario_accounts =
     \<lparr>accounts =
     [\<lparr>a_id = 1, a_code = ''1001'', a_name = ''Cash'', a_type = Asset\<rparr>,
     \<lparr>a_id = 2, a_code = ''3001'', a_name = ''Capital'', a_type = Equity\<rparr>,
     \<lparr>a_id = 3, a_code = ''4001'', a_name = ''Sales'', a_type = Revenue\<rparr>,
     \<lparr>a_id = 4, a_code = ''5001'', a_name = ''Rent'', a_type = Expense\<rparr>],
     journal_entries = [], journal_lines = [], idempotency_keys = []\<rparr>"
  by code_simp

lemma scenario_seeded_rows [code]:
  "scenario_seeded =
     \<lparr>accounts =
     [\<lparr>a_id = 1, a_code = ''1001'', a_name = ''Cash'', a_type = Asset\<rparr>,
     \<lparr>a_id = 2, a_code = ''3001'', a_name = ''Capital'', a_type = Equity\<rparr>,
     \<lparr>a_id = 3, a_code = ''4001'', a_name = ''Sales'', a_type = Revenue\<rparr>,
     \<lparr>a_id = 4, a_code = ''5001'', a_name = ''Rent'', a_type = Expense\<rparr>],
     journal_entries =
     [\<lparr>r_id = 10, r_date = 1, r_narration = ''Seed capital'',
     r_reverses_entry_id = None\<rparr>],
     journal_lines =
     [\<lparr>l_entry_id = 10, l_account_id = 1, l_debit_cents = 100000,
     l_credit_cents = 0, l_line_index = 0\<rparr>,
     \<lparr>l_entry_id = 10, l_account_id = 2, l_debit_cents = 0,
     l_credit_cents = 100000, l_line_index = 1\<rparr>],
     idempotency_keys =
     [\<lparr>k_key = ''key-1'',
     k_request_hash =
     ''{date:d+i,lines:[{},{},],narration:<Seed capital>,}'',
     k_entry_id = 10\<rparr>]\<rparr>"
  by code_simp

lemma scenario_ledger_rows [code]:
  "scenario_ledger =
     \<lparr>accounts =
     [\<lparr>a_id = 1, a_code = ''1001'', a_name = ''Cash'', a_type = Asset\<rparr>,
     \<lparr>a_id = 2, a_code = ''3001'', a_name = ''Capital'', a_type = Equity\<rparr>,
     \<lparr>a_id = 3, a_code = ''4001'', a_name = ''Sales'', a_type = Revenue\<rparr>,
     \<lparr>a_id = 4, a_code = ''5001'', a_name = ''Rent'', a_type = Expense\<rparr>],
     journal_entries =
     [\<lparr>r_id = 10, r_date = 1, r_narration = ''Seed capital'',
     r_reverses_entry_id = None\<rparr>,
     \<lparr>r_id = 11, r_date = 5, r_narration = ''Cash sale'',
     r_reverses_entry_id = None\<rparr>,
     \<lparr>r_id = 12, r_date = 7, r_narration = ''Office rent'',
     r_reverses_entry_id = None\<rparr>],
     journal_lines =
     [\<lparr>l_entry_id = 10, l_account_id = 1, l_debit_cents = 100000,
     l_credit_cents = 0, l_line_index = 0\<rparr>,
     \<lparr>l_entry_id = 10, l_account_id = 2, l_debit_cents = 0,
     l_credit_cents = 100000, l_line_index = 1\<rparr>,
     \<lparr>l_entry_id = 11, l_account_id = 1, l_debit_cents = 50000,
     l_credit_cents = 0, l_line_index = 0\<rparr>,
     \<lparr>l_entry_id = 11, l_account_id = 3, l_debit_cents = 0,
     l_credit_cents = 50000, l_line_index = 1\<rparr>,
     \<lparr>l_entry_id = 12, l_account_id = 4, l_debit_cents = 20000,
     l_credit_cents = 0, l_line_index = 0\<rparr>,
     \<lparr>l_entry_id = 12, l_account_id = 1, l_debit_cents = 0,
     l_credit_cents = 20000, l_line_index = 1\<rparr>],
     idempotency_keys =
     [\<lparr>k_key = ''key-1'',
     k_request_hash =
     ''{date:d+i,lines:[{},{},],narration:<Seed capital>,}'',
     k_entry_id = 10\<rparr>]\<rparr>"
  by code_simp

lemma scenario_reversed_rows [code]:
  "scenario_reversed =
     \<lparr>accounts =
     [\<lparr>a_id = 1, a_code = ''1001'', a_name = ''Cash'', a_type = Asset\<rparr>,
     \<lparr>a_id = 2, a_code = ''3001'', a_name = ''Capital'', a_type = Equity\<rparr>,
     \<lparr>a_id = 3, a_code = ''4001'', a_name = ''Sales'', a_type = Revenue\<rparr>,
     \<lparr>a_id = 4, a_code = ''5001'', a_name = ''Rent'', a_type = Expense\<rparr>],
     journal_entries =
     [\<lparr>r_id = 10, r_date = 1, r_narration = ''Seed capital'',
     r_reverses_entry_id = None\<rparr>,
     \<lparr>r_id = 11, r_date = 5, r_narration = ''Cash sale'',
     r_reverses_entry_id = None\<rparr>,
     \<lparr>r_id = 12, r_date = 7, r_narration = ''Office rent'',
     r_reverses_entry_id = None\<rparr>,
     \<lparr>r_id = 13, r_date = 8, r_narration = ''Reversal of seed capital'',
     r_reverses_entry_id = Some 10\<rparr>],
     journal_lines =
     [\<lparr>l_entry_id = 10, l_account_id = 1, l_debit_cents = 100000,
     l_credit_cents = 0, l_line_index = 0\<rparr>,
     \<lparr>l_entry_id = 10, l_account_id = 2, l_debit_cents = 0,
     l_credit_cents = 100000, l_line_index = 1\<rparr>,
     \<lparr>l_entry_id = 11, l_account_id = 1, l_debit_cents = 50000,
     l_credit_cents = 0, l_line_index = 0\<rparr>,
     \<lparr>l_entry_id = 11, l_account_id = 3, l_debit_cents = 0,
     l_credit_cents = 50000, l_line_index = 1\<rparr>,
     \<lparr>l_entry_id = 12, l_account_id = 4, l_debit_cents = 20000,
     l_credit_cents = 0, l_line_index = 0\<rparr>,
     \<lparr>l_entry_id = 12, l_account_id = 1, l_debit_cents = 0,
     l_credit_cents = 20000, l_line_index = 1\<rparr>,
     \<lparr>l_entry_id = 13, l_account_id = 1, l_debit_cents = 0,
     l_credit_cents = 100000, l_line_index = 0\<rparr>,
     \<lparr>l_entry_id = 13, l_account_id = 2, l_debit_cents = 100000,
     l_credit_cents = 0, l_line_index = 1\<rparr>],
     idempotency_keys =
     [\<lparr>k_key = ''key-1'',
     k_request_hash =
     ''{date:d+i,lines:[{},{},],narration:<Seed capital>,}'',
     k_entry_id = 10\<rparr>]\<rparr>"
  by code_simp

lemma scenario_restored_rows [code]:
  "scenario_restored =
     \<lparr>accounts =
     [\<lparr>a_id = 1, a_code = ''1001'', a_name = ''Cash'', a_type = Asset\<rparr>,
     \<lparr>a_id = 2, a_code = ''3001'', a_name = ''Capital'', a_type = Equity\<rparr>,
     \<lparr>a_id = 3, a_code = ''4001'', a_name = ''Sales'', a_type = Revenue\<rparr>,
     \<lparr>a_id = 4, a_code = ''5001'', a_name = ''Rent'', a_type = Expense\<rparr>],
     journal_entries =
     [\<lparr>r_id = 10, r_date = 1, r_narration = ''Seed capital'',
     r_reverses_entry_id = None\<rparr>,
     \<lparr>r_id = 11, r_date = 5, r_narration = ''Cash sale'',
     r_reverses_entry_id = None\<rparr>,
     \<lparr>r_id = 12, r_date = 7, r_narration = ''Office rent'',
     r_reverses_entry_id = None\<rparr>,
     \<lparr>r_id = 13, r_date = 8, r_narration = ''Reversal of seed capital'',
     r_reverses_entry_id = Some 10\<rparr>,
     \<lparr>r_id = 14, r_date = 9, r_narration = ''Seed capital again'',
     r_reverses_entry_id = Some 13\<rparr>],
     journal_lines =
     [\<lparr>l_entry_id = 10, l_account_id = 1, l_debit_cents = 100000,
     l_credit_cents = 0, l_line_index = 0\<rparr>,
     \<lparr>l_entry_id = 10, l_account_id = 2, l_debit_cents = 0,
     l_credit_cents = 100000, l_line_index = 1\<rparr>,
     \<lparr>l_entry_id = 11, l_account_id = 1, l_debit_cents = 50000,
     l_credit_cents = 0, l_line_index = 0\<rparr>,
     \<lparr>l_entry_id = 11, l_account_id = 3, l_debit_cents = 0,
     l_credit_cents = 50000, l_line_index = 1\<rparr>,
     \<lparr>l_entry_id = 12, l_account_id = 4, l_debit_cents = 20000,
     l_credit_cents = 0, l_line_index = 0\<rparr>,
     \<lparr>l_entry_id = 12, l_account_id = 1, l_debit_cents = 0,
     l_credit_cents = 20000, l_line_index = 1\<rparr>,
     \<lparr>l_entry_id = 13, l_account_id = 1, l_debit_cents = 0,
     l_credit_cents = 100000, l_line_index = 0\<rparr>,
     \<lparr>l_entry_id = 13, l_account_id = 2, l_debit_cents = 100000,
     l_credit_cents = 0, l_line_index = 1\<rparr>,
     \<lparr>l_entry_id = 14, l_account_id = 1, l_debit_cents = 100000,
     l_credit_cents = 0, l_line_index = 0\<rparr>,
     \<lparr>l_entry_id = 14, l_account_id = 2, l_debit_cents = 0,
     l_credit_cents = 100000, l_line_index = 1\<rparr>],
     idempotency_keys =
     [\<lparr>k_key = ''key-1'',
     k_request_hash =
     ''{date:d+i,lines:[{},{},],narration:<Seed capital>,}'',
     k_entry_id = 10\<rparr>]\<rparr>"
  by code_simp

subsection \<open>The validator\<close>

lemma rules_loop_Inr:
  "rules_loop ls td tc seen = Inr (td', tc') \<Longrightarrow>
     td' = td + sum_list (map cents_debit ls) \<and> tc' = tc + sum_list (map cents_credit ls) \<and>
     list_all (\<lambda>l. one_sided (cents_debit l) (cents_credit l)) ls \<and>
     distinct (map account_code ls) \<and> set (map account_code ls) \<inter> seen = {}"
proof (induction ls arbitrary: td tc seen)
  case Nil
  then show ?case by simp
next
  case (Cons l ls)
  from Cons.prems have ok: "account_code l \<notin> seen" "one_sided (cents_debit l) (cents_credit l)"
    and rest: "rules_loop ls (td + cents_debit l) (tc + cents_credit l) (insert (account_code l) seen) = Inr (td', tc')"
    by (auto simp: Let_def cents_debit_def cents_credit_def one_sided_def split: if_splits)
  from Cons.IH[OF rest] ok show ?case by auto
qed


lemma validate_Inr:
  assumes "validateDoubleEntryRules r = Inr u"
  shows "sum_list (map cents_debit (lines r)) = sum_list (map cents_credit (lines r))"
    and "0 < sum_list (map cents_debit (lines r))"
    and "list_all (\<lambda>l. one_sided (cents_debit l) (cents_credit l)) (lines r)"
    and "distinct (map account_code (lines r))"
proof -
  from assms obtain td tc where l: "rules_loop (lines r) 0 0 {} = Inr (td, tc)"
    and t: "td = tc" "td \<noteq> 0"
    by (auto simp: validateDoubleEntryRules_def split: sum.splits prod.splits if_splits)
  note f = rules_loop_Inr[OF l]
  from f t show "sum_list (map cents_debit (lines r)) = sum_list (map cents_credit (lines r))" by simp
  from f show o: "list_all (\<lambda>l. one_sided (cents_debit l) (cents_credit l)) (lines r)" by simp
  from f show "distinct (map account_code (lines r))" by simp
  from o have "0 \<le> sum_list (map cents_debit (lines r))"
    by (intro sum_list_nonneg) (fastforce simp: one_sided_def list_all_iff)
  with f t show "0 < sum_list (map cents_debit (lines r))" by simp
qed












lemma precision2_fromCents: "precision2 x = fromCents (toCents x)"
  by (simp add: precision2_def fromCents_def toCents_def)

lemma cents_magnitude: "c \<noteq> 0 \<Longrightarrow> 2 powi (- 1022) \<le> \<bar>of_int c / 100 :: rat\<bar>"
proof -
  assume "c \<noteq> 0"
  then have "1 \<le> \<bar>c\<bar>" by simp
  then have "(1::rat) \<le> of_int \<bar>c\<bar>" by (simp only: of_int_1_le_iff)
  then have "(1 / 100 :: rat) \<le> \<bar>of_int c / 100\<bar>" by simp
  with tiny show ?thesis by linarith
qed

lemma fromCents_sign [simp]:
  "0 < fromCents c \<longleftrightarrow> 0 < c" "fromCents c < 0 \<longleftrightarrow> c < 0" "fromCents c = 0 \<longleftrightarrow> c = 0"
proof -
  show "0 < fromCents c \<longleftrightarrow> 0 < c"
  proof (cases "c = 0")
    case True then show ?thesis by (simp add: fromCents_def)
  next
    case False
    from binary64_sign(1)[OF cents_magnitude[OF False]] show ?thesis by (simp add: fromCents_def)
  qed
  show "fromCents c < 0 \<longleftrightarrow> c < 0"
  proof (cases "c = 0")
    case True then show ?thesis by (simp add: fromCents_def)
  next
    case False
    from binary64_sign(2)[OF cents_magnitude[OF False]] show ?thesis
      by (simp add: fromCents_def divide_less_0_iff)
  qed
  show "fromCents c = 0 \<longleftrightarrow> c = 0"
  proof (cases "c = 0")
    case True then show ?thesis by (simp add: fromCents_def)
  next
    case False
    from binary64_sign(3)[OF cents_magnitude[OF False]] show ?thesis by (simp add: fromCents_def)
  qed
qed

lemma Math_round_of_int [simp]: "Math_round (of_int n) = n"
  by (simp add: Math_round_def floor_eq_iff)

lemma toCents_0 [simp]: "toCents 0 = 0"
  using Math_round_of_int[of 0] by (simp add: toCents_def)

lemma toCents_fromCents:
  assumes "\<bar>c\<bar> \<le> 2 ^ 50"
  shows "toCents (fromCents c) = c"
proof (cases "c = 0")
  case True then show ?thesis by (simp add: fromCents_def)
next
  case False
  define a :: rat where "a = \<bar>of_int c\<bar>"
  define y where "y = binary64 (of_int c / 100)"
  define w where "w = y * 100"
  define z where "z = binary64 w"
  from False have "1 \<le> \<bar>c\<bar>" by simp
  then have a1: "1 \<le> a" unfolding a_def by (metis of_int_1_le_iff of_int_abs)
  from assms have a2: "a \<le> 2 ^ 50" unfolding a_def
    by (metis of_int_abs of_int_le_iff of_int_numeral of_int_power)
  from binary64_err[OF cents_magnitude[OF False]]
  have "\<bar>y - of_int c / 100\<bar> \<le> a / 100 / 2 ^ 53" by (simp add: y_def a_def)
  then have "\<bar>(y - of_int c / 100) * 100\<bar> \<le> a / 100 / 2 ^ 53 * 100"
    by (simp only: abs_mult) simp
  then have 1: "\<bar>w - of_int c\<bar> \<le> a / 2 ^ 53" by (simp add: w_def algebra_simps)
  have wa: "\<bar>w\<bar> \<le> a + a / 2 ^ 53" "a - a / 2 ^ 53 \<le> \<bar>w\<bar>"
    using 1 unfolding a_def by linarith+
  have "(1 / 100 :: rat) \<le> a - a / 2 ^ 53" using a1 by simp
  with wa(2) tiny have "2 powi (- 1022) \<le> \<bar>w\<bar>" by linarith
  from binary64_err[OF this] have "\<bar>z - w\<bar> \<le> \<bar>w\<bar> / 2 ^ 53" by (simp add: z_def)
  also have "\<dots> \<le> (a + a / 2 ^ 53) / 2 ^ 53" using wa(1) by (simp add: divide_right_mono)
  finally have 2: "\<bar>z - w\<bar> \<le> (a + a / 2 ^ 53) / 2 ^ 53" .
  have "(a + a / 2 ^ 53) / 2 ^ 53 + a / 2 ^ 53 \<le> 3 * a / 2 ^ 53" using a1 by (simp add: field_simps)
  also have "\<dots> \<le> 3 * 2 ^ 50 / 2 ^ 53" using a2 by (simp add: divide_right_mono)
  also have "\<dots> < 1 / 2" by simp
  finally have "(a + a / 2 ^ 53) / 2 ^ 53 + a / 2 ^ 53 < 1 / 2" .
  with 1 2 have "\<bar>z - of_int c\<bar> < 1 / 2" by linarith
  then have "\<lfloor>z + 1 / 2\<rfloor> = c" by (intro floor_unique) (auto simp: abs_if split: if_splits)
  then show ?thesis by (simp add: toCents_def fromCents_def Math_round_def y_def w_def z_def)
qed

lemma toCents_precision2: "\<bar>toCents x\<bar> \<le> 2 ^ 50 \<Longrightarrow> toCents (precision2 x) = toCents x"
  by (simp add: precision2_fromCents toCents_fromCents)

lemma precision2_sign [simp]:
  "0 < precision2 x \<longleftrightarrow> 0 < toCents x" "precision2 x < 0 \<longleftrightarrow> toCents x < 0"
  "precision2 x = 0 \<longleftrightarrow> toCents x = 0"
  by (simp_all add: precision2_fromCents)

lemma joi_amount_snd: "snd (joi_amount p x) = (case x of None \<Rightarrow> 0 | Some y \<Rightarrow> precision2 y)"
  by (simp add: joi_amount_def Let_def split: option.splits)

lemma toCents_joi_amount:
  "\<bar>toCents (or0 x)\<bar> \<le> 2 ^ 50 \<Longrightarrow> toCents (snd (joi_amount p x)) = toCents (or0 x)"
  by (simp add: joi_amount_snd or0_def toCents_precision2 split: option.splits)

lemma int4_small: "int4 n \<Longrightarrow> \<bar>n\<bar> \<le> 2 ^ 50"
  by (auto simp: int4_def abs_if)

lemma toCents_fromCents_int4: "int4 c \<Longrightarrow> toCents (fromCents c) = c"
  by (rule toCents_fromCents) (rule int4_small)

lemma journalLineSchema_both:
  "0 < cents_debit l \<Longrightarrow> 0 < cents_credit l \<Longrightarrow> fst (journalLineSchema i l) \<noteq> []"
  by (auto simp: journalLineSchema_def Let_def joi_amount_def cents_debit_def cents_credit_def or0_def
      split: prod.splits option.splits if_splits)

lemma journalLineSchema_neither:
  "cents_debit l = 0 \<Longrightarrow> cents_credit l = 0 \<Longrightarrow> fst (journalLineSchema i l) \<noteq> []"
  by (auto simp: journalLineSchema_def Let_def joi_amount_def cents_debit_def cents_credit_def or0_def
      split: prod.splits option.splits if_splits)

lemma item_errors_nonempty:
  assumes "l \<in> set ls" "\<And>i. fst (journalLineSchema i l) \<noteq> []"
  shows "concat (map fst (map (\<lambda>(i, l). journalLineSchema i l) (enumerate n ls))) \<noteq> []"
proof -
  from assms(1) obtain i where "i < length ls" "ls ! i = l"
    by (auto simp: in_set_conv_nth)
  then have "(n + i, l) \<in> set (enumerate n ls)"
    by (auto simp: in_set_enumerate_eq)
  then have "fst (journalLineSchema (n + i) l) \<in> set (map fst (map (\<lambda>(i, l). journalLineSchema i l) (enumerate n ls)))"
    by force
  with assms(2) show ?thesis by (auto simp del: set_map)
qed

lemma schema_rejects:
  assumes "length (lines r) = 1
     \<or> (\<exists>l \<in> set (lines r). 0 < cents_debit l \<and> 0 < cents_credit l)
     \<or> (\<forall>l \<in> set (lines r). cents_debit l = 0 \<and> cents_credit l = 0)
     \<or> today < new_Date (date r)"
  shows "fst (journalEntrySchema today r) \<noteq> []"
proof -
  let ?items = "map (\<lambda>(i, l). journalLineSchema i l) (enumerate 0 (lines r))"
  let ?ie = "concat (map fst ?items)"
  have len: "length (map (\<lambda>(l, errors, v). if errors = [] then v else l) (zip (lines r) ?items))
             = length (lines r)" by simp
  have split: "fst (journalEntrySchema today r) \<noteq> []"
    if "?ie \<noteq> [] \<or> length (lines r) < 2 \<or> today < new_Date (date r)"
    using that unfolding journalEntrySchema_def Let_def
    by (auto simp only: fst_conv len append_is_Nil_conv split: if_splits)
  from assms consider
    (one) "length (lines r) = 1"
    | (both) l where "l \<in> set (lines r)" "0 < cents_debit l" "0 < cents_credit l"
    | (zero) "\<forall>l \<in> set (lines r). cents_debit l = 0 \<and> cents_credit l = 0"
    | (future) "today < new_Date (date r)"
    by blast
  then show ?thesis
  proof cases
    case one then show ?thesis by (intro split) simp
  next
    case both
    then have "?ie \<noteq> []"
      using journalLineSchema_both[of l] by (intro item_errors_nonempty[of l]) auto
    then show ?thesis by (intro split) simp
  next
    case zero
    show ?thesis
    proof (cases "lines r")
      case Nil
      then show ?thesis by (intro split) simp
    next
      case (Cons l ls)
      with zero have "?ie \<noteq> []"
        using journalLineSchema_neither[of l] by (intro item_errors_nonempty[of l]) auto
      then show ?thesis by (intro split) simp
    qed
  next
    case future then show ?thesis by (intro split) simp
  qed
qed

subsection \<open>Integrity of the reachable states\<close>


lemma create_lines_Inr:
  "create_lines db m eid i req = Inr ls \<Longrightarrow>
     map debit_cents ls = map cents_debit req \<and> map credit_cents ls = map cents_credit req \<and>
     map line_index ls = [i..<i + length req] \<and>
     (\<forall>l \<in> set ls. entry_id l = eid \<and> account_id l \<in> a_id ` set (accounts db)) \<and>
     list_all2 (\<lambda>l q. \<exists>a. m (account_code q) = Some a \<and> account_id l = a_id a \<and>
                  line_account_code l = a_code a) ls req"
proof (induction req arbitrary: i ls)
  case Nil
  then show ?case by simp
next
  case (Cons q req)
  from Cons.prems obtain a ls' where a: "m (account_code q) = Some a"
    and fk: "a_id a \<in> a_id ` set (accounts db)"
    and rest: "create_lines db m eid (Suc i) req = Inr ls'"
    and ls: "ls = \<lparr>entry_id = eid, account_id = a_id a, line_account_code = a_code a,
                   debit_cents = cents_debit q, credit_cents = cents_credit q, line_index = i\<rparr> # ls'"
    by (auto simp: Let_def cents_debit_def cents_credit_def split: option.splits if_splits sum.splits)
  have "[i..<i + length (q # req)] = i # [Suc i..<Suc i + length req]"
    by (simp add: upt_conv_Cons del: upt_Suc)
  with Cons.IH[OF rest] a fk show ?case
    unfolding ls by (simp del: upt_Suc)
qed

lemma JournalRepository_create_cases:
  "(\<exists>e. JournalRepository_create env db r accs = (Inl e, db)) \<or>
   (\<exists>ls. uuidv4 env \<notin> r_id ` set (journal_entries db) \<and>
      create_lines db (fold (\<lambda>account m. m(a_code account \<mapsto> account)) accs Map.empty)
        (uuidv4 env) 0 (lines r) = Inr ls \<and>
      JournalRepository_create env db r accs =
        (Inr \<lparr>je_id = uuidv4 env, je_date = date r, je_narration = narration r,
              je_reverses_entry_id = reverses_entry_id r, je_lines = ls\<rparr>,
         db\<lparr>journal_entries := journal_entries db @ [new_entry_row env r],
            journal_lines := journal_lines db @ map line_row ls\<rparr>))"
  by (auto simp: JournalRepository_create_def Let_def new_entry_row_def split: sum.splits option.splits)

lemma lines_of_fresh:
  assumes "integrity db" "k \<notin> r_id ` set (journal_entries db)"
  shows "lines_of db k = []"
  using assms by (auto simp: integrity_def lines_of_def filter_empty_conv)

lemma line_row_sel [simp]:
  "l_entry_id (line_row l) = entry_id l" "l_account_id (line_row l) = account_id l"
  "l_debit_cents (line_row l) = debit_cents l" "l_credit_cents (line_row l) = credit_cents l"
  "l_line_index (line_row l) = line_index l"
  by (simp_all add: line_row_def)

lemma lines_of_append_new:
  assumes "integrity db" "k \<notin> r_id ` set (journal_entries db)" "\<forall>l \<in> set ls. entry_id l = k"
  shows "lines_of (db\<lparr>journal_entries := es, journal_lines := journal_lines db @ map line_row ls\<rparr>) k'
         = (if k' = k then map line_row ls else lines_of db k')"
proof -
  have "filter (\<lambda>l. l_entry_id l = k') (map line_row ls) = (if k' = k then map line_row ls else [])"
    using assms(3) by (auto simp: filter_empty_conv filter_id_conv)
  with lines_of_fresh[OF assms(1,2)] show ?thesis
    by (auto simp: lines_of_def)
qed

lemma integrity_post:
  assumes wf: "integrity db" and fresh: "k \<notin> r_id ` set (journal_entries db)"
    and row: "r_id row = k"
    and ls: "\<forall>l \<in> set ls. entry_id l = k \<and> account_id l \<in> a_id ` set (accounts db)"
    and idx: "map line_index ls = [0..<length ls]"
  shows "integrity (db\<lparr>journal_entries := journal_entries db @ [row],
                       journal_lines := journal_lines db @ map line_row ls\<rparr>)"
proof -
  let ?db = "db\<lparr>journal_entries := journal_entries db @ [row],
                journal_lines := journal_lines db @ map line_row ls\<rparr>"
  have lo: "lines_of ?db k' = (if k' = k then map line_row ls else lines_of db k')" for k'
    using lines_of_append_new[OF wf fresh] ls by simp
  have "map l_line_index (map line_row ls) = [0..<length (map line_row ls)]"
    using idx by (simp add: comp_def)
  with wf fresh row ls show ?thesis
    unfolding integrity_def lo
    by (auto simp: image_iff)
qed

lemma ledger_balanced_post:
  assumes wf: "integrity db" and bal: "ledger_balanced db"
    and fresh: "k \<notin> r_id ` set (journal_entries db)" and row: "r_id row = k"
    and ls: "\<forall>l \<in> set ls. entry_id l = k"
    and sums: "sum_list (map debit_cents ls) = sum_list (map credit_cents ls)"
              "0 < sum_list (map debit_cents ls)"
  shows "ledger_balanced (db\<lparr>journal_entries := journal_entries db @ [row],
                             journal_lines := journal_lines db @ map line_row ls\<rparr>)"
proof -
  let ?db = "db\<lparr>journal_entries := journal_entries db @ [row],
                journal_lines := journal_lines db @ map line_row ls\<rparr>"
  have lo: "lines_of ?db k' = (if k' = k then map line_row ls else lines_of db k')" for k'
    using lines_of_append_new[OF wf fresh] ls by simp
  have "total_debits (map line_row ls) = sum_list (map debit_cents ls)"
       "total_credits (map line_row ls) = sum_list (map credit_cents ls)"
    by (simp_all add: total_debits_def total_credits_def comp_def)
  with bal sums row fresh show ?thesis
    unfolding ledger_balanced_def lo by auto
qed

lemma JournalRepository_create_inv:
  assumes "integrity db" "ledger_balanced db" "validateDoubleEntryRules r = Inr u"
  shows "integrity (snd (JournalRepository_create env db r accs)) \<and>
         ledger_balanced (snd (JournalRepository_create env db r accs))"
  using JournalRepository_create_cases[of env db r accs]
proof (elim disjE exE conjE)
  fix e assume "JournalRepository_create env db r accs = (Inl e, db)"
  with assms show ?thesis by simp
next
  fix ls
  assume fresh: "uuidv4 env \<notin> r_id ` set (journal_entries db)"
    and cl: "create_lines db (fold (\<lambda>account m. m(a_code account \<mapsto> account)) accs Map.empty)
        (uuidv4 env) 0 (lines r) = Inr ls"
    and res: "JournalRepository_create env db r accs =
        (Inr \<lparr>je_id = uuidv4 env, je_date = date r, je_narration = narration r,
              je_reverses_entry_id = reverses_entry_id r, je_lines = ls\<rparr>,
         db\<lparr>journal_entries := journal_entries db @ [new_entry_row env r],
            journal_lines := journal_lines db @ map line_row ls\<rparr>)"
  note f = create_lines_Inr[OF cl]
  from f have len: "length ls = length (lines r)"
    by (auto dest: list_all2_lengthD)
  have row: "r_id (new_entry_row env r) = uuidv4 env" by (simp add: new_entry_row_def)
  have i: "integrity (db\<lparr>journal_entries := journal_entries db @ [new_entry_row env r],
                       journal_lines := journal_lines db @ map line_row ls\<rparr>)"
    using f len by (intro integrity_post[OF assms(1) fresh row]) auto
  have b: "ledger_balanced (db\<lparr>journal_entries := journal_entries db @ [new_entry_row env r],
                       journal_lines := journal_lines db @ map line_row ls\<rparr>)"
    using f validate_Inr(1,2)[OF assms(3)]
    by (intro ledger_balanced_post[OF assms(1,2) fresh row]) auto
  from i b res show ?thesis by simp
qed

lemma AccountRepository_create_inv:
  assumes "integrity db" "ledger_balanced db"
  shows "integrity (snd (AccountRepository_create env db a)) \<and>
         ledger_balanced (snd (AccountRepository_create env db a))"
  using assms
  by (auto simp: AccountRepository_create_def Let_def integrity_def ledger_balanced_def lines_of_def)

lemma createAccount_inv:
  assumes "integrity db" "ledger_balanced db"
  shows "integrity (snd (createAccount env db a)) \<and> ledger_balanced (snd (createAccount env db a))"
  using assms AccountRepository_create_inv[OF assms]
  by (auto simp: createAccount_def split: sum.splits option.splits)

lemma recordRequest_inv:
  assumes "integrity db" "ledger_balanced db"
  shows "integrity (snd (recordRequest env db key body i)) \<and>
         ledger_balanced (snd (recordRequest env db key body i))"
  using assms
  by (auto simp: recordRequest_def IdempotencyRepository_create_def Let_def integrity_def
      ledger_balanced_def lines_of_def)

lemma check_entry_rules:
  "check_entry db v = Inr accs \<Longrightarrow> validateDoubleEntryRules v = Inr ()"
  by (auto simp: check_entry_def Let_def split: sum.splits if_splits)

lemma snd_post_entry:
  "snd (post_entry env db v accs key) =
     (case JournalRepository_create env db v accs of
        (Inl e, db') \<Rightarrow> db'
      | (Inr createdEntry, db') \<Rightarrow>
          (case key of
             None \<Rightarrow> db'
           | Some k \<Rightarrow> if k = [] then db'
                       else snd (recordRequest env db' k (requestBody v) (je_id createdEntry))))"
  by (auto simp: post_entry_def split: sum.splits option.splits prod.splits)

lemma post_entry_inv:
  assumes "integrity db" "ledger_balanced db" "validateDoubleEntryRules v = Inr ()"
  shows "integrity (snd (post_entry env db v accs key)) \<and>
         ledger_balanced (snd (post_entry env db v accs key))"
proof -
  obtain res db' where c: "JournalRepository_create env db v accs = (res, db')"
    by (cases "JournalRepository_create env db v accs")
  with JournalRepository_create_inv[OF assms, of env accs]
  have i: "integrity db'" "ledger_balanced db'" by simp_all
  show ?thesis
    using c i recordRequest_inv[OF i]
    by (simp add: snd_post_entry split: sum.splits option.splits)
qed

lemma createJournalEntry_inv:
  assumes "integrity db" "ledger_balanced db"
  shows "integrity (snd (createJournalEntry env db r key)) \<and>
         ledger_balanced (snd (createJournalEntry env db r key))"
  using assms post_entry_inv[OF assms check_entry_rules]
  by (auto simp: createJournalEntry_def split: sum.splits option.splits)

lemma createReversalEntry_inv:
  assumes "integrity db" "ledger_balanced db"
  shows "integrity (snd (createReversalEntry env db i n d key)) \<and>
         ledger_balanced (snd (createReversalEntry env db i n d key))"
  using assms createJournalEntry_inv[OF assms]
  by (auto simp: createReversalEntry_def split: sum.splits)

lemma reachable_inv: "reachable db \<Longrightarrow> integrity db \<and> ledger_balanced db"
proof (induction rule: reachable.induct)
  case reachable_empty
  show ?case by (simp add: empty_db_def integrity_def ledger_balanced_def)
next
  case (reachable_createAccount db env accountData)
  then show ?case using createAccount_inv by blast
next
  case (reachable_createJournalEntry db env entryData idempotencyKey)
  then show ?case using createJournalEntry_inv by blast
next
  case (reachable_createReversalEntry db env originalEntryId narration' reversalDate idempotencyKey)
  then show ?case using createReversalEntry_inv by blast
qed

subsection \<open>The range of the stored amounts\<close>

lemma create_lines_int4:
  "create_lines db m eid i req = Inr ls \<Longrightarrow>
     \<forall>l \<in> set ls. int4 (debit_cents l) \<and> int4 (credit_cents l)"
proof (induction req arbitrary: i ls)
  case Nil
  then show ?case by simp
next
  case (Cons q req)
  from Cons.prems obtain l :: JournalLine and ls' where
    rest: "create_lines db m eid (Suc i) req = Inr ls'"
    and ls: "ls = l # ls'"
    and ok: "int4 (debit_cents l)" "int4 (credit_cents l)"
    by (auto simp: Let_def split: option.splits if_splits sum.splits)
  from Cons.IH[OF rest] ok show ?case unfolding ls by simp
qed

lemma JournalRepository_create_int4:
  assumes "amounts_int4 db"
  shows "amounts_int4 (snd (JournalRepository_create env db r accs))"
  using JournalRepository_create_cases[of env db r accs]
proof (elim disjE exE conjE)
  fix e assume "JournalRepository_create env db r accs = (Inl e, db)"
  with assms show ?thesis by simp
next
  fix ls
  assume cl: "create_lines db (fold (\<lambda>account m. m(a_code account \<mapsto> account)) accs Map.empty)
        (uuidv4 env) 0 (lines r) = Inr ls"
    and res: "JournalRepository_create env db r accs =
        (Inr \<lparr>je_id = uuidv4 env, je_date = date r, je_narration = narration r,
              je_reverses_entry_id = reverses_entry_id r, je_lines = ls\<rparr>,
         db\<lparr>journal_entries := journal_entries db @ [new_entry_row env r],
            journal_lines := journal_lines db @ map line_row ls\<rparr>)"
  from create_lines_int4[OF cl] assms show ?thesis
    unfolding res by (auto simp: amounts_int4_def)
qed

lemma createAccount_int4: "amounts_int4 db \<Longrightarrow> amounts_int4 (snd (createAccount env db a))"
  by (auto simp: createAccount_def AccountRepository_create_def Let_def amounts_int4_def
      split: sum.splits option.splits)

lemma recordRequest_int4:
  "amounts_int4 db \<Longrightarrow> amounts_int4 (snd (recordRequest env db key body i))"
  by (auto simp: recordRequest_def IdempotencyRepository_create_def Let_def amounts_int4_def)

lemma post_entry_int4:
  assumes "amounts_int4 db"
  shows "amounts_int4 (snd (post_entry env db v accs key))"
proof -
  obtain res db' where c: "JournalRepository_create env db v accs = (res, db')"
    by (cases "JournalRepository_create env db v accs")
  with JournalRepository_create_int4[OF assms, of env v accs] have i: "amounts_int4 db'" by simp
  show ?thesis
    using c i recordRequest_int4[OF i]
    by (simp add: snd_post_entry split: sum.splits option.splits)
qed

lemma createJournalEntry_int4:
  "amounts_int4 db \<Longrightarrow> amounts_int4 (snd (createJournalEntry env db r key))"
  using post_entry_int4[of db]
  by (auto simp: createJournalEntry_def split: sum.splits option.splits)

lemma createReversalEntry_int4:
  "amounts_int4 db \<Longrightarrow> amounts_int4 (snd (createReversalEntry env db i n d key))"
  using createJournalEntry_int4[of db]
  by (auto simp: createReversalEntry_def split: sum.splits)

lemma reachable_amounts: "reachable db \<Longrightarrow> amounts_int4 db"
proof (induction rule: reachable.induct)
  case reachable_empty
  show ?case by (simp add: empty_db_def amounts_int4_def)
next
  case (reachable_createAccount db env accountData)
  then show ?case using createAccount_int4 by blast
next
  case (reachable_createJournalEntry db env entryData idempotencyKey)
  then show ?case using createJournalEntry_int4 by blast
next
  case (reachable_createReversalEntry db env originalEntryId narration' reversalDate idempotencyKey)
  then show ?case using createReversalEntry_int4 by blast
qed

subsection \<open>The balance queries as sums over the rows of the join\<close>


lemma sum_list_delta_0:
  "v \<notin> key ` set ks \<Longrightarrow> sum_list (map (\<lambda>k. if v = key k then (c::int) else 0) ks) = 0"
  by (induction ks) auto

lemma sum_list_delta:
  "distinct (map key ks) \<Longrightarrow> v \<in> key ` set ks \<Longrightarrow>
     sum_list (map (\<lambda>k. if v = key k then (c::int) else 0) ks) = c"
  by (induction ks) (auto simp: sum_list_delta_0)

lemma sum_list_partition:
  assumes "distinct (map key ks)" "\<forall>x \<in> set xs. g x \<in> key ` set ks"
  shows "sum_list (map (\<lambda>k. sum_list (map f (filter (\<lambda>x. g x = key k) xs))) ks)
         = (sum_list (map f xs) :: int)"
  using assms(2)
proof (induction xs)
  case Nil
  then show ?case by simp
next
  case (Cons x xs)
  have "sum_list (map (\<lambda>k. sum_list (map f (filter (\<lambda>x. g x = key k) (x # xs)))) ks)
        = sum_list (map (\<lambda>k. (if g x = key k then f x else 0)
                             + sum_list (map f (filter (\<lambda>x. g x = key k) xs))) ks)"
    by (intro arg_cong[where f = sum_list] map_cong) auto
  also have "\<dots> = sum_list (map (\<lambda>k. if g x = key k then f x else 0) ks)
                  + sum_list (map (\<lambda>k. sum_list (map f (filter (\<lambda>x. g x = key k) xs))) ks)"
    by (simp add: sum_list_addf)
  also have "\<dots> = f x + sum_list (map f xs)"
    using Cons sum_list_delta[OF assms(1), of "g x" "f x"] by simp
  finally show ?case by simp
qed

lemma sum_list_insort_key:
  "sum_list (map h (insort_key k x xs)) = (h x :: int) + sum_list (map h xs)"
  by (induction xs) auto

lemma sum_list_sort_key: "sum_list (map h (sort_key k xs)) = (sum_list (map h xs) :: int)"
  by (induction xs) (auto simp: sum_list_insort_key)

lemma sum_list_group_by:
  "sum_list (map (\<lambda>g. sum_list (map f (snd g))) (group_by key rows)) = (sum_list (map f rows) :: int)"
proof -
  have "sum_list (map (\<lambda>k. sum_list (map f (filter (\<lambda>r. key r = id k) rows))) (remdups (map key rows)))
        = sum_list (map f rows)"
    by (intro sum_list_partition) auto
  then show ?thesis by (simp add: group_by_def comp_def)
qed

lemma COALESCE_sql_SUM:
  "COALESCE (sql_SUM xs) 0 = sum_list (concat (map (\<lambda>x. case x of None \<Rightarrow> [] | Some v \<Rightarrow> [v]) xs))"
proof -
  have "COALESCE (if vs = [] then None else Some (sum_list vs)) 0 = sum_list vs" for vs
    by (simp add: COALESCE_def)
  then show ?thesis
    by (simp only: sql_SUM_def Let_def)
qed

lemma COALESCE_SUM:
  "COALESCE (sql_SUM (map (\<lambda>(a, jl, je). map_option f jl) rows)) 0 = sum_list (map (row_val f) rows)"
proof -
  have "sum_list (concat (map (\<lambda>x. case x of None \<Rightarrow> [] | Some v \<Rightarrow> [v])
          (map (\<lambda>(a, jl, je). map_option f jl) rows))) = sum_list (map (row_val f) rows)"
    by (induction rows) (auto simp: row_val_def split: option.splits)
  then show ?thesis
    by (simp only: COALESCE_sql_SUM)
qed

lemma ab_debits_balance_row: "ab_debits (balance_row g) = sum_list (map (row_val l_debit_cents) (snd g))"
  by (cases g) (simp add: balance_row_def Let_def COALESCE_SUM)

lemma ab_credits_balance_row: "ab_credits (balance_row g) = sum_list (map (row_val l_credit_cents) (snd g))"
  by (cases g) (simp add: balance_row_def Let_def COALESCE_SUM)

lemma tb_totals:
  "tb_total_debits (getTrialBalance db fromDate toDate)
     = sum_list (map (row_val l_debit_cents) (filter (in_range fromDate toDate) (from_clause db)))"
  "tb_total_credits (getTrialBalance db fromDate toDate)
     = sum_list (map (row_val l_credit_cents) (filter (in_range fromDate toDate) (from_clause db)))"
proof -
  have eq: "(\<lambda>(a, jl, je). case je of None \<Rightarrow> True | Some e \<Rightarrow> r_date e \<ge> fromDate \<and> r_date e \<le> toDate)
        = in_range fromDate toDate"
    by (auto simp: in_range_def fun_eq_iff)
  show "tb_total_debits (getTrialBalance db fromDate toDate)
     = sum_list (map (row_val l_debit_cents) (filter (in_range fromDate toDate) (from_clause db)))"
    by (simp add: getTrialBalance_def Let_def eq comp_def ab_debits_balance_row
        sum_list_sort_key sum_list_group_by)
  show "tb_total_credits (getTrialBalance db fromDate toDate)
     = sum_list (map (row_val l_credit_cents) (filter (in_range fromDate toDate) (from_clause db)))"
    by (simp add: getTrialBalance_def Let_def eq comp_def ab_credits_balance_row
        sum_list_sort_key sum_list_group_by)
qed


lemma sum_list_filter_concat:
  "sum_list (map h (filter P (concat xss))) = (\<Sum>xs\<leftarrow>xss. (sum_list (map h (filter P xs)) :: int))"
  by (induction xss) auto

lemma sum_list_concat_map:
  "(\<Sum>y\<leftarrow>concat (map F xs). h y) = (\<Sum>x\<leftarrow>xs. (\<Sum>y\<leftarrow>F x. (h y :: int)))"
  by (induction xs) auto

lemma filter_key_find:
  "distinct (map key es) \<Longrightarrow>
     filter (\<lambda>e. k = key e) es = (case find (\<lambda>e. k = key e) es of None \<Rightarrow> [] | Some e \<Rightarrow> [e])"
proof (induction es)
  case Nil
  then show ?case by simp
next
  case (Cons e es)
  then show ?case
    by (auto simp: filter_empty_conv image_iff split: option.splits)
qed

lemma find_key_member:
  "distinct (map key es) \<Longrightarrow> e \<in> set es \<Longrightarrow> find (\<lambda>e'. key e = key e') es = Some e"
  by (induction es) (auto simp: image_iff)

lemma sum_left_join_entries:
  assumes "distinct (map r_id (journal_entries db))"
  shows "sum_list (map (row_val g) (filter (in_range f t) (left_join_entries db al)))
         = (case snd al of None \<Rightarrow> 0 | Some l \<Rightarrow> if line_in_range db f t l then g l else 0)"
proof (cases al)
  case (Pair a jl)
  show ?thesis
  proof (cases jl)
    case None
    with Pair show ?thesis by (simp add: left_join_entries_def row_val_def)
  next
    case (Some l)
    with Pair show ?thesis
      by (auto simp: left_join_entries_def Let_def filter_key_find[OF assms] line_in_range_def
          row_val_def in_range_def split: option.splits)
  qed
qed

lemma sum_left_join_lines:
  assumes "distinct (map r_id (journal_entries db))"
  shows "(\<Sum>al\<leftarrow>left_join_lines db a.
            sum_list (map (row_val g) (filter (in_range f t) (left_join_entries db al))))
         = (\<Sum>l\<leftarrow>filter (\<lambda>l. l_account_id l = a_id a) (journal_lines db).
              if line_in_range db f t l then g l else 0)"
proof -
  have eq: "(\<lambda>l. a_id a = l_account_id l) = (\<lambda>l. l_account_id l = a_id a)" by auto
  show ?thesis
    by (simp add: sum_left_join_entries[OF assms] left_join_lines_def Let_def comp_def eq)
qed

lemma sum_from_clause:
  assumes "integrity db"
  shows "sum_list (map (row_val g) (filter (in_range f t) (from_clause db)))
         = (\<Sum>e\<leftarrow>journal_entries db.
              if r_date e \<ge> f \<and> r_date e \<le> t then sum_list (map g (lines_of db (r_id e))) else 0)"
proof -
  from assms have da: "distinct (map a_id (accounts db))" and de: "distinct (map r_id (journal_entries db))"
    and fa: "\<forall>l \<in> set (journal_lines db). l_account_id l \<in> a_id ` set (accounts db)"
    and fe: "\<forall>l \<in> set (journal_lines db). l_entry_id l \<in> r_id ` set (journal_entries db)"
    by (auto simp: integrity_def)
  let ?F = "\<lambda>l. if line_in_range db f t l then g l else 0"
  have "sum_list (map (row_val g) (filter (in_range f t) (from_clause db)))
        = (\<Sum>a\<leftarrow>accounts db. \<Sum>al\<leftarrow>left_join_lines db a.
             sum_list (map (row_val g) (filter (in_range f t) (left_join_entries db al))))"
    by (simp add: from_clause_def sum_list_filter_concat comp_def sum_list_concat_map)
  also have "\<dots> = (\<Sum>a\<leftarrow>accounts db. \<Sum>l\<leftarrow>filter (\<lambda>l. l_account_id l = a_id a) (journal_lines db). ?F l)"
    by (simp only: sum_left_join_lines[OF de])
  also have "\<dots> = sum_list (map ?F (journal_lines db))"
    by (rule sum_list_partition[OF da fa])
  also have "\<dots> = (\<Sum>e\<leftarrow>journal_entries db. \<Sum>l\<leftarrow>filter (\<lambda>l. l_entry_id l = r_id e) (journal_lines db). ?F l)"
    by (rule sum_list_partition[OF de fe, symmetric])
  also have "\<dots> = (\<Sum>e\<leftarrow>journal_entries db.
              if r_date e \<ge> f \<and> r_date e \<le> t then sum_list (map g (lines_of db (r_id e))) else 0)"
  proof (intro arg_cong[where f = sum_list] map_cong refl)
    fix e assume e: "e \<in> set (journal_entries db)"
    have "?F l = (if r_date e \<ge> f \<and> r_date e \<le> t then g l else 0)" if "l_entry_id l = r_id e" for l
      using find_key_member[OF de e] that by (simp add: line_in_range_def)
    then have "(\<Sum>l\<leftarrow>filter (\<lambda>l. l_entry_id l = r_id e) (journal_lines db). ?F l)
        = (\<Sum>l\<leftarrow>filter (\<lambda>l. l_entry_id l = r_id e) (journal_lines db).
             if r_date e \<ge> f \<and> r_date e \<le> t then g l else 0)"
      by (intro arg_cong[where f = sum_list] map_cong refl) auto
    then show "(\<Sum>l\<leftarrow>filter (\<lambda>l. l_entry_id l = r_id e) (journal_lines db). ?F l)
        = (if r_date e \<ge> f \<and> r_date e \<le> t then sum_list (map g (lines_of db (r_id e))) else 0)"
      by (cases "r_date e \<ge> f \<and> r_date e \<le> t") (auto simp: lines_of_def)
  qed
  finally show ?thesis .
qed

lemma trial_balance_balances:
  assumes "integrity db" "ledger_balanced db"
  shows "tb_total_debits (getTrialBalance db f t) = tb_total_credits (getTrialBalance db f t)"
proof -
  have "(\<Sum>e\<leftarrow>journal_entries db.
           if r_date e \<ge> f \<and> r_date e \<le> t then sum_list (map l_debit_cents (lines_of db (r_id e))) else 0)
      = (\<Sum>e\<leftarrow>journal_entries db.
           if r_date e \<ge> f \<and> r_date e \<le> t then sum_list (map l_credit_cents (lines_of db (r_id e))) else 0)"
    using assms(2)
    by (intro arg_cong[where f = sum_list] map_cong refl)
       (auto simp: ledger_balanced_def total_debits_def total_credits_def)
  then show ?thesis
    by (simp add: tb_totals sum_from_clause[OF assms(1)])
qed

lemma created_entry_balanced:
  assumes "integrity db" "validateDoubleEntryRules r = Inr ()"
    and "JournalRepository_create env db r accs = (Inr e, db')"
  shows "sum_list (map debit_cents (je_lines e)) = sum_list (map credit_cents (je_lines e)) \<and>
         0 < sum_list (map debit_cents (je_lines e)) \<and>
         lines_of db' (je_id e) = map line_row (je_lines e) \<and>
         je_id e \<in> r_id ` set (journal_entries db')"
  using JournalRepository_create_cases[of env db r accs]
proof (elim disjE exE conjE)
  fix e' assume "JournalRepository_create env db r accs = (Inl e', db)"
  with assms(3) show ?thesis by simp
next
  fix ls
  assume fresh: "uuidv4 env \<notin> r_id ` set (journal_entries db)"
    and cl: "create_lines db (fold (\<lambda>account m. m(a_code account \<mapsto> account)) accs Map.empty)
        (uuidv4 env) 0 (lines r) = Inr ls"
    and res: "JournalRepository_create env db r accs =
        (Inr \<lparr>je_id = uuidv4 env, je_date = date r, je_narration = narration r,
              je_reverses_entry_id = reverses_entry_id r, je_lines = ls\<rparr>,
         db\<lparr>journal_entries := journal_entries db @ [new_entry_row env r],
            journal_lines := journal_lines db @ map line_row ls\<rparr>)"
  note f = create_lines_Inr[OF cl]
  from res assms(3) have e: "je_lines e = ls" "je_id e = uuidv4 env"
    and db': "db' = db\<lparr>journal_entries := journal_entries db @ [new_entry_row env r],
            journal_lines := journal_lines db @ map line_row ls\<rparr>"
    by auto
  have "lines_of db' (je_id e) = map line_row ls"
    unfolding db' e using lines_of_append_new[OF assms(1) fresh, of ls] f by simp
  with f validate_Inr(1,2)[OF assms(2)] e db' show ?thesis
    by (simp add: new_entry_row_def)
qed

lemma reachable_scenario_accounts: "reachable scenario_accounts"
  unfolding scenario_accounts_def by (intro reachable.intros)

lemma reachable_scenario_seeded: "reachable scenario_seeded"
  unfolding scenario_seeded_def by (intro reachable.intros reachable_scenario_accounts)

lemma reachable_scenario_ledger: "reachable scenario_ledger"
  unfolding scenario_ledger_def by (intro reachable.intros reachable_scenario_seeded)

subsection \<open>The rows of the join\<close>

lemma find_Some_if_member: "x \<in> set xs \<Longrightarrow> P x \<Longrightarrow> \<exists>y. find P xs = Some y"
  by (induction xs) auto

lemma in_left_join_lines:
  "(a', jl) \<in> set (left_join_lines db a) \<longleftrightarrow>
     a' = a \<and> (case jl of
                 None \<Rightarrow> \<forall>l \<in> set (journal_lines db). a_id a \<noteq> l_account_id l
               | Some l \<Rightarrow> l \<in> set (journal_lines db) \<and> a_id a = l_account_id l)"
  by (auto simp: left_join_lines_def Let_def filter_empty_conv split: option.splits)

lemma in_left_join_entries:
  "(a', jl', je) \<in> set (left_join_entries db (a, jl)) \<longleftrightarrow>
     a' = a \<and> jl' = jl \<and>
     (case jl of
        None \<Rightarrow> je = None
      | Some l \<Rightarrow> (case je of
                    None \<Rightarrow> \<forall>e \<in> set (journal_entries db). l_entry_id l \<noteq> r_id e
                  | Some e \<Rightarrow> e \<in> set (journal_entries db) \<and> l_entry_id l = r_id e))"
  by (auto simp: left_join_entries_def Let_def filter_empty_conv split: option.splits)

lemma in_from_clause:
  "(a, jl, je) \<in> set (from_clause db) \<longleftrightarrow>
     a \<in> set (accounts db) \<and>
     (case jl of
        None \<Rightarrow> je = None \<and> (\<forall>l \<in> set (journal_lines db). a_id a \<noteq> l_account_id l)
      | Some l \<Rightarrow>
          l \<in> set (journal_lines db) \<and> a_id a = l_account_id l \<and>
          (case je of
             None \<Rightarrow> \<forall>e \<in> set (journal_entries db). l_entry_id l \<noteq> r_id e
           | Some e \<Rightarrow> e \<in> set (journal_entries db) \<and> l_entry_id l = r_id e))"
proof -
  have "(a, jl, je) \<in> set (from_clause db) \<longleftrightarrow>
        (\<exists>a0 \<in> set (accounts db). \<exists>al \<in> set (left_join_lines db a0). (a, jl, je) \<in> set (left_join_entries db al))"
    by (auto simp: from_clause_def)
  also have "\<dots> \<longleftrightarrow> (\<exists>a0 \<in> set (accounts db). \<exists>a1 jl0. (a1, jl0) \<in> set (left_join_lines db a0) \<and>
                 (a, jl, je) \<in> set (left_join_entries db (a1, jl0)))"
    by (simp add: Bex_def)
  also have "\<dots> \<longleftrightarrow> a \<in> set (accounts db) \<and> (a, jl) \<in> set (left_join_lines db a) \<and>
                 (a, jl, je) \<in> set (left_join_entries db (a, jl))"
    unfolding in_left_join_lines in_left_join_entries by blast
  finally show ?thesis
    unfolding in_left_join_lines in_left_join_entries by (cases jl; cases je) auto
qed

lemma report_codes:
  "ab_account_code ` set (tb_accounts (getTrialBalance db f t))
     = (\<lambda>r. a_code (fst r)) ` set (filter (in_range f t) (from_clause db))"
proof -
  have eq: "(\<lambda>(a, jl, je). case je of None \<Rightarrow> True | Some e \<Rightarrow> r_date e \<ge> f \<and> r_date e \<le> t)
        = in_range f t"
    by (auto simp: in_range_def fun_eq_iff)
  have "ab_account_code (balance_row g) = a_code (fst g)" for g
    by (cases g) (simp add: balance_row_def Let_def)
  then show ?thesis
    by (force simp: getTrialBalance_def Let_def eq group_by_def image_iff)
qed

subsection \<open>Reading an entry back\<close>


lemma accountMap_value:
  "fold (\<lambda>account m. m(a_code account \<mapsto> account)) accs m0 k = Some a \<Longrightarrow>
     (a \<in> set accs \<and> a_code a = k) \<or> m0 k = Some a"
  by (induction accs arbitrary: m0) (fastforce split: if_splits)+

lemma validateAccountsExist_subset:
  "validateAccountsExist db codes = Inr accs \<Longrightarrow> set accs \<subseteq> set (accounts db)"
  by (auto simp: validateAccountsExist_def getAccountsByCodesWithValidation_def Let_def
      split: if_splits option.splits)

lemma check_entry_accounts:
  "check_entry db v = Inr accs \<Longrightarrow> set accs \<subseteq> set (accounts db)"
  using validateAccountsExist_subset
  by (fastforce simp: check_entry_def Let_def split: sum.splits if_splits)

lemma filter_unique:
  "distinct (map key xs) \<Longrightarrow> x \<in> set xs \<Longrightarrow> filter (\<lambda>y. key y = key x) xs = [x]"
  by (induction xs) (auto simp: filter_empty_conv image_iff)

lemma join_account_unique:
  assumes "distinct (map a_id (accounts db))" "a \<in> set (accounts db)" "l_account_id l = a_id a"
  shows "join_account db l =
     [\<lparr>entry_id = l_entry_id l, account_id = l_account_id l, line_account_code = a_code a,
       debit_cents = l_debit_cents l, credit_cents = l_credit_cents l, line_index = l_line_index l\<rparr>]"
  using filter_unique[OF assms(1,2)] assms(3) by (simp add: join_account_def)

lemma find_SomeD: "find P xs = Some x \<Longrightarrow> x \<in> set xs \<and> P x"
  by (induction xs) (auto split: if_splits)

lemma find_append:
  "find P (xs @ ys) = (case find P xs of None \<Rightarrow> find P ys | Some x \<Rightarrow> Some x)"
  by (induction xs) auto

lemma find_unique:
  "distinct (map key xs) \<Longrightarrow> x \<in> set xs \<Longrightarrow> find (\<lambda>y. key y = key x) xs = Some x"
  by (induction xs) (auto simp: image_iff)

lemma findById_Some:
  "JournalRepository_findById db i = Some e \<Longrightarrow>
     je_id e = i \<and> i \<in> r_id ` set (journal_entries db) \<and>
     je_lines e = sort_key line_index (concat (map (join_account db) (lines_of db i)))"
proof -
  assume a: "JournalRepository_findById db i = Some e"
  then obtain r where f: "find (\<lambda>e. r_id e = i) (journal_entries db) = Some r"
    by (auto simp: JournalRepository_findById_def split: option.splits)
  from find_SomeD[OF f] a f show ?thesis
    by (auto simp: JournalRepository_findById_def lines_of_def)
qed

lemma findById_None:
  "JournalRepository_findById db i = None \<longleftrightarrow> i \<notin> r_id ` set (journal_entries db)"
proof (cases "find (\<lambda>e. r_id e = i) (journal_entries db)")
  case None
  then have "JournalRepository_findById db i = None"
    by (simp add: JournalRepository_findById_def)
  moreover from None have "i \<notin> r_id ` set (journal_entries db)"
    by (auto simp: find_None_iff)
  ultimately show ?thesis by simp
next
  case (Some r)
  from find_SomeD[OF Some] Some show ?thesis
    by (auto simp: JournalRepository_findById_def)
qed

lemma join_account_idempotency_keys [simp]:
  "join_account (db\<lparr>idempotency_keys := ks\<rparr>) = join_account db"
  by (rule ext) (simp add: join_account_def)

lemma findById_idempotency_keys [simp]:
  "JournalRepository_findById (db\<lparr>idempotency_keys := ks\<rparr>) i = JournalRepository_findById db i"
  by (simp add: JournalRepository_findById_def cong: option.case_cong)

lemma concat_join_account:
  assumes "distinct (map a_id (accounts db))"
    and "\<forall>l \<in> set rs. l_account_id l \<in> a_id ` set (accounts db)"
  shows "list_all2 (joined_with db) (concat (map (join_account db) rs)) rs"
  using assms(2)
proof (induction rs)
  case Nil
  then show ?case by simp
next
  case (Cons l rs)
  then obtain a where a: "a \<in> set (accounts db)" "l_account_id l = a_id a" by auto
  have "joined_with db \<lparr>entry_id = l_entry_id l, account_id = l_account_id l, line_account_code = a_code a,
       debit_cents = l_debit_cents l, credit_cents = l_credit_cents l, line_index = l_line_index l\<rparr> l"
    using a by (auto simp: joined_with_def line_row_def)
  with Cons join_account_unique[OF assms(1) a] show ?case by simp
qed

lemma joined_with_index: "list_all2 (joined_with db) js rs \<Longrightarrow> map line_index js = map l_line_index rs"
  by (induction rule: list_all2_induct) (auto simp: joined_with_def)

lemma findById_lines:
  assumes "integrity db" "JournalRepository_findById db i = Some e"
  shows "list_all2 (joined_with db) (je_lines e) (lines_of db i) \<and>
         map line_index (je_lines e) = [0..<length (je_lines e)]"
proof -
  let ?js = "concat (map (join_account db) (lines_of db i))"
  from assms(1) have da: "distinct (map a_id (accounts db))"
    and fa: "\<forall>l \<in> set (lines_of db i). l_account_id l \<in> a_id ` set (accounts db)"
    by (auto simp: integrity_def lines_of_def)
  note j = concat_join_account[OF da fa]
  from findById_Some[OF assms(2)] obtain r where "r \<in> set (journal_entries db)" "r_id r = i"
    by auto
  with assms(1) have "map l_line_index (lines_of db i) = [0..<length (lines_of db i)]"
    by (auto simp: integrity_def)
  with joined_with_index[OF j] list_all2_lengthD[OF j]
  have idx: "map line_index ?js = [0..<length ?js]" by simp
  then have "sorted (map line_index ?js)" by simp
  then have "sort_key line_index ?js = ?js" by (rule sort_key_id_if_sorted)
  with findById_Some[OF assms(2)] j idx show ?thesis by simp
qed


lemma concat_map_singleton: "(\<forall>x \<in> set xs. f x = [x]) \<Longrightarrow> concat (map f xs) = xs"
  by (induction xs) auto

lemma find_key_None: "k \<notin> key ` set xs \<Longrightarrow> find (\<lambda>x. key x = k) xs = None"
  by (induction xs) auto

lemma find_key_Some: "k \<in> key ` set xs \<Longrightarrow> \<exists>y. find (\<lambda>x. key x = k) xs = Some y"
  by (induction xs) auto

lemma list_all2_left: "list_all2 P xs ys \<Longrightarrow> x \<in> set xs \<Longrightarrow> \<exists>y \<in> set ys. P x y"
  by (induction rule: list_all2_induct) auto

lemma JournalRepository_create_Inr:
  assumes "JournalRepository_create env db r accs = (Inr e, db')"
  shows "uuidv4 env \<notin> r_id ` set (journal_entries db) \<and>
     create_lines db (fold (\<lambda>account m. m(a_code account \<mapsto> account)) accs Map.empty)
        (uuidv4 env) 0 (lines r) = Inr (je_lines e) \<and>
     je_id e = uuidv4 env \<and> je_date e = date r \<and> je_narration e = narration r \<and>
     je_reverses_entry_id e = reverses_entry_id r \<and>
     db' = db\<lparr>journal_entries := journal_entries db @ [new_entry_row env r],
              journal_lines := journal_lines db @ map line_row (je_lines e)\<rparr>"
  using JournalRepository_create_cases[of env db r accs] assms by auto

lemma findById_created:
  assumes i: "integrity db" and sub: "set accs \<subseteq> set (accounts db)"
    and c: "JournalRepository_create env db r accs = (Inr e, db')"
  shows "JournalRepository_findById db' (je_id e) = Some e"
proof -
  define m where "m = fold (\<lambda>account m. m(a_code account \<mapsto> account)) accs Map.empty"
  define ls where "ls = je_lines e"
  from JournalRepository_create_Inr[OF c]
  have fresh: "uuidv4 env \<notin> r_id ` set (journal_entries db)"
    and cl: "create_lines db m (uuidv4 env) 0 (lines r) = Inr ls"
    and e: "je_id e = uuidv4 env" "je_date e = date r" "je_narration e = narration r"
           "je_reverses_entry_id e = reverses_entry_id r"
    and db': "db' = db\<lparr>journal_entries := journal_entries db @ [new_entry_row env r],
              journal_lines := journal_lines db @ map line_row ls\<rparr>"
    unfolding m_def ls_def by blast+
  note f = create_lines_Inr[OF cl]
  have mv: "a \<in> set (accounts db)" if "m k = Some a" for k a
    using accountMap_value[of accs Map.empty k a] that sub unfolding m_def by auto
  from i have da: "distinct (map a_id (accounts db))" by (simp add: integrity_def)
  have acc: "accounts db' = accounts db" by (simp add: db')
  have fnd: "find (\<lambda>x. r_id x = uuidv4 env) (journal_entries db') = Some (new_entry_row env r)"
  proof -
    from fresh have "find (\<lambda>x. r_id x = uuidv4 env) (journal_entries db) = None"
      by (rule find_key_None)
    then show ?thesis by (simp add: db' find_append new_entry_row_def)
  qed
  have lo: "lines_of db' (uuidv4 env) = map line_row ls"
    unfolding db' using lines_of_append_new[OF i fresh, of ls] f by simp
  have one: "join_account db' (line_row l) = [l]" if "l \<in> set ls" for l
  proof -
    from f have "list_all2 (\<lambda>l q. \<exists>a. m (account_code q) = Some a \<and> account_id l = a_id a \<and>
                  line_account_code l = a_code a) ls (lines r)"
      by blast
    from list_all2_left[OF this that]
    obtain q :: CreateJournalLineRequest and a
      where a: "m (account_code q) = Some a" "account_id l = a_id a"
      "line_account_code l = a_code a"
      by blast
    from mv[OF a(1)] have "a \<in> set (accounts db')" by (simp add: acc)
    from join_account_unique[OF _ this, of "line_row l"] da acc a show ?thesis
      by simp
  qed
  have cc: "concat (map (join_account db') (map line_row ls)) = ls"
    using concat_map_singleton[of ls "\<lambda>l. join_account db' (line_row l)"] one
    by (simp add: comp_def)
  from f have "sorted (map line_index ls)" by simp
  then have so: "sort_key line_index ls = ls" by (rule sort_key_id_if_sorted)
  have "JournalRepository_findById db' (uuidv4 env) =
          Some \<lparr>je_id = uuidv4 env, je_date = date r, je_narration = narration r,
           je_reverses_entry_id = reverses_entry_id r, je_lines = ls\<rparr>"
    using lo cc so
    by (simp add: JournalRepository_findById_def fnd new_entry_row_def lines_of_def)
  with e show ?thesis by (simp add: ls_def)
qed

lemma findById_preserved:
  assumes i: "integrity db" and c: "JournalRepository_create env db r accs = (Inr e, db')"
    and x: "x \<in> r_id ` set (journal_entries db)"
  shows "JournalRepository_findById db' x = JournalRepository_findById db x"
proof -
  from JournalRepository_create_Inr[OF c]
  have fresh: "uuidv4 env \<notin> r_id ` set (journal_entries db)"
    and cl: "create_lines db (fold (\<lambda>account m. m(a_code account \<mapsto> account)) accs Map.empty)
        (uuidv4 env) 0 (lines r) = Inr (je_lines e)"
    and db': "db' = db\<lparr>journal_entries := journal_entries db @ [new_entry_row env r],
              journal_lines := journal_lines db @ map line_row (je_lines e)\<rparr>"
    by blast+
  note f = create_lines_Inr[OF cl]
  from x fresh have ne: "x \<noteq> uuidv4 env" by blast
  from find_key_Some[OF x] obtain y where "find (\<lambda>e. r_id e = x) (journal_entries db) = Some y"
    by blast
  then have fnd: "find (\<lambda>e. r_id e = x) (journal_entries db') = find (\<lambda>e. r_id e = x) (journal_entries db)"
    by (simp add: db' find_append)
  have lo: "lines_of db' x = lines_of db x"
    unfolding db' using lines_of_append_new[OF i fresh, of "je_lines e"] f ne by simp
  have ja: "join_account db' = join_account db"
    by (rule ext) (simp add: join_account_def db')
  show ?thesis
    using lo by (simp add: JournalRepository_findById_def fnd ja lines_of_def cong: option.case_cong)
qed

subsection \<open>The idempotency key\<close>


lemma schema_snd:
  "snd (journalEntrySchema t r) =
     r\<lparr>lines := map (\<lambda>(l, errors, v). if errors = [] then v else l)
                   (zip (lines r) (map (\<lambda>(i, l). journalLineSchema i l) (enumerate 0 (lines r))))\<rparr>"
  by (simp add: journalEntrySchema_def Let_def)

lemma items_valid:
  "length ls = length items \<Longrightarrow> concat (map fst items) = [] \<Longrightarrow>
     map (\<lambda>(l, errors, v). if errors = [] then v else l) (zip ls items) = map snd items"
  by (induction ls items rule: list_induct2) auto

lemma schema_valid_lines:
  assumes "fst (journalEntrySchema t r) = []"
  shows "lines (snd (journalEntrySchema t r))
           = map snd (map (\<lambda>(i, l). journalLineSchema i l) (enumerate 0 (lines r)))"
proof -
  from assms have "concat (map fst (map (\<lambda>(i, l). journalLineSchema i l) (enumerate 0 (lines r)))) = []"
    unfolding journalEntrySchema_def Let_def by (simp only: fst_conv append_is_Nil_conv)
  then show ?thesis by (simp add: schema_snd items_valid)
qed

lemma schema_snd_fields:
  "date (snd (journalEntrySchema t r)) = date r"
  "narration (snd (journalEntrySchema t r)) = narration r"
  "reverses_entry_id (snd (journalEntrySchema t r)) = reverses_entry_id r"
  "length (lines (snd (journalEntrySchema t r))) = length (lines r)"
  by (simp_all add: schema_snd)


lemma schema_snd_same: "snd (journalEntrySchema t2 r) = snd (journalEntrySchema t1 r)"
  by (simp add: schema_snd)

lemma stringify_line: "JSON_stringify (line_body l) [''date'', ''lines'', ''narration''] = JObj []"
  "JSON_stringify (line_body l) [''date'', ''lines'', ''narration'', ''reverses_entry_id''] = JObj []"
  by (simp_all add: line_body_def)

lemma hashRequest_requestBody:
  "hashRequest env (requestBody r) =
     sha256 env (JObj ([(''date'', JDate (date r)),
                        (''lines'', JArr (replicate (length (lines r)) (JObj []))),
                        (''narration'', JStr (narration r))] @
                       (case reverses_entry_id r of None \<Rightarrow> [] | Some i \<Rightarrow> [(''reverses_entry_id'', JUuid i)])))"
  by (cases "reverses_entry_id r")
     (simp_all add: hashRequest_def requestBody_def Let_def comp_def stringify_line map_replicate_const)


lemma handle_idempotency_key:
  assumes "key \<noteq> []"
  shows "handle_idempotency env db v (Some key) =
     (if blank key then Inl (InternalError KeyRequired)
      else case IdempotencyRepository_findByKey db key of
             None \<Rightarrow> Inr None
           | Some row \<Rightarrow>
               if k_request_hash row = hashRequest env (requestBody v)
               then Inr (JournalRepository_findById db (k_entry_id row))
               else Inl (ConflictError (KeyUsedWithDifferentRequest key)))"
  using assms
  by (simp add: handle_idempotency_def validateRequest_def IdempotencyRepository_validateRequest_def
      Let_def split: option.splits)

lemma handle_idempotency_no_key:
  "key = None \<or> key = Some [] \<Longrightarrow> handle_idempotency env db v key = Inr None"
  by (auto simp: handle_idempotency_def)

lemma recordRequest_cases:
  "recordRequest env db key body i =
     (if blank key then (Inl (InternalError KeyRequired), db)
      else if length key > 255 then (Inl (InternalError (Pg string_data_right_truncation)), db)
      else if key \<in> k_key ` set (idempotency_keys db) then (Inl (ConflictError (KeyAlreadyExists key)), db)
      else if i \<notin> r_id ` set (journal_entries db) then (Inl (InternalError (Pg foreign_key_violation)), db)
      else (Inr \<lparr>k_key = key, k_request_hash = hashRequest env body, k_entry_id = i\<rparr>,
            db\<lparr>idempotency_keys := idempotency_keys db @
                  [\<lparr>k_key = key, k_request_hash = hashRequest env body, k_entry_id = i\<rparr>]\<rparr>))"
  by (simp add: recordRequest_def IdempotencyRepository_create_def Let_def)

lemma post_entry_Inr:
  assumes "post_entry env db v accs key = (Inr e, db')"
  shows "\<exists>dbm. JournalRepository_create env db v accs = (Inr e, dbm) \<and>
     ((key = None \<or> key = Some []) \<and> db' = dbm \<or>
      (\<exists>k. key = Some k \<and> k \<noteq> [] \<and> \<not> blank k \<and> k \<notin> k_key ` set (idempotency_keys db) \<and>
           db' = dbm\<lparr>idempotency_keys := idempotency_keys dbm @
                   [\<lparr>k_key = k, k_request_hash = hashRequest env (requestBody v), k_entry_id = je_id e\<rparr>]\<rparr>))"
proof -
  obtain res dbm where c: "JournalRepository_create env db v accs = (res, dbm)"
    by (cases "JournalRepository_create env db v accs")
  with assms obtain ce where res: "res = Inr ce"
    by (cases res) (auto simp: post_entry_def)
  from c res JournalRepository_create_Inr[of env db v accs ce dbm]
  have keys: "idempotency_keys dbm = idempotency_keys db" by simp
  show ?thesis
  proof (cases "key = None \<or> key = Some []")
    case True
    with assms c res show ?thesis by (auto simp: post_entry_def)
  next
    case False
    then obtain k where k: "key = Some k" "k \<noteq> []" by (cases key) auto
    from assms c res k show ?thesis
      by (auto simp: post_entry_def recordRequest_cases keys split: if_splits)
  qed
qed

lemma post_entry_Inl:
  assumes "post_entry env db v accs key = (Inl err, db')"
  shows "db' = db \<or>
     (\<exists>e. JournalRepository_create env db v accs = (Inr e, db') \<and> (\<exists>k. key = Some k \<and> k \<noteq> []))"
proof -
  obtain res dbm where c: "JournalRepository_create env db v accs = (res, dbm)"
    by (cases "JournalRepository_create env db v accs")
  show ?thesis
  proof (cases res)
    case (Inl e)
    with c JournalRepository_create_cases[of env db v accs] have "dbm = db" by auto
    with assms c Inl show ?thesis by (simp add: post_entry_def)
  next
    case (Inr ce)
    with assms c show ?thesis
      by (auto simp: post_entry_def recordRequest_cases split: option.splits if_splits)
  qed
qed

lemma createJournalEntry_Inr:
  assumes "createJournalEntry env db r key = (Inr e, db')"
  shows "fst (journalEntrySchema (end_of_today env) r) = [] \<and>
    (\<forall>k. key = Some k \<and> k \<noteq> [] \<longrightarrow> \<not> blank k) \<and>
    ((\<exists>k row. key = Some k \<and> k \<noteq> [] \<and> IdempotencyRepository_findByKey db k = Some row \<and>
         k_request_hash row = hashRequest env (requestBody (snd (journalEntrySchema (end_of_today env) r))) \<and>
         JournalRepository_findById db (k_entry_id row) = Some e \<and> db' = db)
     \<or> (\<exists>accs. check_entry db (snd (journalEntrySchema (end_of_today env) r)) = Inr accs \<and>
          post_entry env db (snd (journalEntrySchema (end_of_today env) r)) accs key = (Inr e, db')))"
proof -
  obtain ds v where s: "journalEntrySchema (end_of_today env) r = (ds, v)"
    by (cases "journalEntrySchema (end_of_today env) r")
  with assms have ds: "ds = []"
    by (auto simp: createJournalEntry_def validateInput_def split: if_splits)
  show ?thesis
  proof (cases "key = None \<or> key = Some []")
    case True
    from assms s ds True handle_idempotency_no_key[OF True, of env db v] show ?thesis
      by (auto simp: createJournalEntry_def validateInput_def split: sum.splits)
  next
    case False
    then obtain k where k: "key = Some k" "k \<noteq> []" by (cases key) auto
    from assms s ds k
    have "(case handle_idempotency env db v (Some k) of
             Inl e \<Rightarrow> (Inl e, db)
           | Inr (Some existingEntry) \<Rightarrow> (Inr existingEntry, db)
           | Inr None \<Rightarrow>
               (case check_entry db v of
                  Inl e \<Rightarrow> (Inl e, db)
                | Inr accs \<Rightarrow> post_entry env db v accs (Some k))) = (Inr e, db')"
      by (simp add: createJournalEntry_def validateInput_def)
    then show ?thesis
      unfolding handle_idempotency_key[OF k(2)] using s ds k
      by (auto split: sum.splits option.splits if_splits)
  qed
qed

lemma createJournalEntry_Inl:
  assumes "createJournalEntry env db r key = (Inl err, db')"
  shows "db' = db \<or>
     (\<exists>e v accs. JournalRepository_create env db v accs = (Inr e, db') \<and> (\<exists>k. key = Some k \<and> k \<noteq> []))"
  using assms post_entry_Inl
  by (fastforce simp: createJournalEntry_def split: sum.splits option.splits)

text \<open>What the first successful call with a key leaves behind for the key.\<close>

lemma key_after_success:
  assumes "createJournalEntry env db r (Some key) = (Inr e, db')" "key \<noteq> []"
  shows "\<not> blank key \<and> je_id e \<in> r_id ` set (journal_entries db') \<and>
     (\<exists>row. IdempotencyRepository_findByKey db' key = Some row \<and>
        k_request_hash row = hashRequest env (requestBody (snd (journalEntrySchema (end_of_today env) r))) \<and>
        k_entry_id row = je_id e) \<and>
     (\<exists>e'. JournalRepository_findById db' (je_id e) = Some e') \<and>
     (db' = db \<or> (je_id e \<notin> r_id ` set (journal_entries db) \<and>
                   (\<exists>row. journal_entries db' = journal_entries db @ [row])))"
proof -
  let ?v = "snd (journalEntrySchema (end_of_today env) r)"
  from createJournalEntry_Inr[OF assms(1)] assms(2) have nb: "\<not> blank key"
    by blast
  from createJournalEntry_Inr[OF assms(1)] consider
    (replay) row where "IdempotencyRepository_findByKey db key = Some row"
      "k_request_hash row = hashRequest env (requestBody ?v)"
      "JournalRepository_findById db (k_entry_id row) = Some e" "db' = db"
    | (posted) accs where "check_entry db ?v = Inr accs" "post_entry env db ?v accs (Some key) = (Inr e, db')"
    by auto
  then show ?thesis
  proof cases
    case replay
    from findById_Some[OF replay(3)] have "je_id e = k_entry_id row"
      "k_entry_id row \<in> r_id ` set (journal_entries db)" by simp_all
    with replay nb show ?thesis by simp
  next
    case posted
    from post_entry_Inr[OF posted(2)] assms(2) obtain dbm where
      c: "JournalRepository_create env db ?v accs = (Inr e, dbm)"
      and fresh: "key \<notin> k_key ` set (idempotency_keys db)"
      and db': "db' = dbm\<lparr>idempotency_keys := idempotency_keys dbm @
                   [\<lparr>k_key = key, k_request_hash = hashRequest env (requestBody ?v), k_entry_id = je_id e\<rparr>]\<rparr>"
      by auto
    note ci = JournalRepository_create_Inr[OF c]
    from ci have keys: "idempotency_keys dbm = idempotency_keys db"
      and ents: "journal_entries dbm = journal_entries db @ [new_entry_row env ?v]"
      and id: "je_id e = uuidv4 env" and new: "uuidv4 env \<notin> r_id ` set (journal_entries db)"
      by simp_all
    have mem: "je_id e \<in> r_id ` set (journal_entries db')"
      by (simp add: db' ents id new_entry_row_def)
    have "find (\<lambda>r. k_key r = key) (idempotency_keys db) = None"
      using fresh by (rule find_key_None)
    then have fk: "IdempotencyRepository_findByKey db' key =
        Some \<lparr>k_key = key, k_request_hash = hashRequest env (requestBody ?v), k_entry_id = je_id e\<rparr>"
      by (simp add: IdempotencyRepository_findByKey_def db' keys find_append)
    from mem have "JournalRepository_findById db' (je_id e) \<noteq> None"
      by (simp add: findById_None)
    then obtain e' where "JournalRepository_findById db' (je_id e) = Some e'" by blast
    then have 4: "\<exists>e'. JournalRepository_findById db' (je_id e) = Some e'" ..
    have n: "je_id e \<notin> r_id ` set (journal_entries db)" using new by (simp add: id)
    have a: "journal_entries db' = journal_entries db @ [new_entry_row env ?v]"
      by (simp add: db' ents)
    then have "\<exists>row. journal_entries db' = journal_entries db @ [row]" ..
    with n have 5: "db' = db \<or> (je_id e \<notin> r_id ` set (journal_entries db) \<and>
                   (\<exists>row. journal_entries db' = journal_entries db @ [row]))" by simp
    from fk have 3: "\<exists>row. IdempotencyRepository_findByKey db' key = Some row \<and>
        k_request_hash row = hashRequest env (requestBody ?v) \<and> k_entry_id row = je_id e"
      by simp
    from nb mem 3 4 5 show ?thesis by (intro conjI)
  qed
qed

lemma second_call:
  assumes first: "createJournalEntry env1 db P1 (Some key) = (Inr e1, db1)" and key: "key \<noteq> []"
    and ok: "fst (journalEntrySchema (end_of_today env2) P2) = []"
  shows "createJournalEntry env2 db1 P2 (Some key) =
     (if hashRequest env2 (requestBody (snd (journalEntrySchema (end_of_today env2) P2)))
           = hashRequest env1 (requestBody (snd (journalEntrySchema (end_of_today env1) P1)))
      then (case JournalRepository_findById db1 (je_id e1) of
              Some e2 \<Rightarrow> (Inr e2, db1)
            | None \<Rightarrow> (Inl (InternalError TypeError), db1))
      else (Inl (ConflictError (KeyUsedWithDifferentRequest key)), db1))"
proof -
  from key_after_success[OF first key] obtain row e' where
    "\<not> blank key" "IdempotencyRepository_findByKey db1 key = Some row"
    "k_request_hash row = hashRequest env1 (requestBody (snd (journalEntrySchema (end_of_today env1) P1)))"
    "k_entry_id row = je_id e1" "JournalRepository_findById db1 (je_id e1) = Some e'"
    by blast
  with ok show ?thesis
    by (cases "journalEntrySchema (end_of_today env2) P2")
       (auto simp: createJournalEntry_def validateInput_def handle_idempotency_key[OF key])
qed

lemma different_hash_conflict:
  assumes "key \<noteq> []"
    and "createJournalEntry env1 db P1 (Some key) = (Inr e1, db1)"
    and "fst (journalEntrySchema (end_of_today env2) P2) = []"
    and "hashRequest env2 (requestBody (snd (journalEntrySchema (end_of_today env2) P2)))
           \<noteq> hashRequest env1 (requestBody (snd (journalEntrySchema (end_of_today env1) P1)))"
  shows "createJournalEntry env2 db1 P2 (Some key)
           = (Inl (ConflictError (KeyUsedWithDifferentRequest key)), db1)"
  using second_call[OF assms(2,1,3)] assms(4) by simp

lemma first_posting:
  "createJournalEntry (scenario_env 10) scenario_accounts seed_capital (Some ''key-1'')
     = (Inr seed_entry, scenario_seeded)"
  by code_simp

subsection \<open>Reversal\<close>

lemma map_eq_nth: "map f xs = map g ys \<Longrightarrow> j < length xs \<Longrightarrow> f (xs ! j) = g (ys ! j)"
  by (metis length_map nth_map)

lemma map_schema_items:
  "(\<And>i l. l \<in> set ls \<Longrightarrow> h (snd (F i l)) = k l) \<Longrightarrow>
     map h (map snd (map (\<lambda>(i, l). F i l) (enumerate n ls))) = map k ls"
  by (induction ls arbitrary: n) auto

lemma journalLineSchema_snd:
  "account_code (snd (journalLineSchema i l)) = account_code l"
  "\<bar>cents_debit l\<bar> \<le> 2 ^ 50 \<Longrightarrow> cents_debit (snd (journalLineSchema i l)) = cents_debit l"
  "\<bar>cents_credit l\<bar> \<le> 2 ^ 50 \<Longrightarrow> cents_credit (snd (journalLineSchema i l)) = cents_credit l"
proof -
  have v: "snd (journalLineSchema i l) =
      \<lparr>account_code = account_code l,
       debit = Some (snd (joi_amount (At_line_debit i) (debit l))),
       credit = Some (snd (joi_amount (At_line_credit i) (credit l)))\<rparr>"
    by (simp add: journalLineSchema_def Let_def split: prod.splits)
  show "account_code (snd (journalLineSchema i l)) = account_code l"
    unfolding v by simp
  show "cents_debit (snd (journalLineSchema i l)) = cents_debit l"
    if "\<bar>cents_debit l\<bar> \<le> 2 ^ 50"
    using toCents_joi_amount[of "debit l" "At_line_debit i"] that
    unfolding v by (simp add: cents_debit_def or0_def)
  show "cents_credit (snd (journalLineSchema i l)) = cents_credit l"
    if "\<bar>cents_credit l\<bar> \<le> 2 ^ 50"
    using toCents_joi_amount[of "credit l" "At_line_credit i"] that
    unfolding v by (simp add: cents_credit_def or0_def)
qed

lemma schema_lines:
  assumes ok: "fst (journalEntrySchema t r) = []"
    and small: "\<forall>l \<in> set (lines r). \<bar>cents_debit l\<bar> \<le> 2 ^ 50 \<and> \<bar>cents_credit l\<bar> \<le> 2 ^ 50"
  shows "map account_code (lines (snd (journalEntrySchema t r))) = map account_code (lines r)"
    "map cents_debit (lines (snd (journalEntrySchema t r))) = map cents_debit (lines r)"
    "map cents_credit (lines (snd (journalEntrySchema t r))) = map cents_credit (lines r)"
proof -
  note l = schema_valid_lines[OF ok]
  show "map account_code (lines (snd (journalEntrySchema t r))) = map account_code (lines r)"
    unfolding l by (rule map_schema_items) (rule journalLineSchema_snd)
  show "map cents_debit (lines (snd (journalEntrySchema t r))) = map cents_debit (lines r)"
    unfolding l using small by (intro map_schema_items journalLineSchema_snd) simp
  show "map cents_credit (lines (snd (journalEntrySchema t r))) = map cents_credit (lines r)"
    unfolding l using small by (intro map_schema_items journalLineSchema_snd) simp
qed

lemma reversalLines_maps:
  assumes "\<forall>l \<in> set (je_lines e). int4 (debit_cents l) \<and> int4 (credit_cents l)"
  shows "map account_code (reversalLines e) = map line_account_code (je_lines e)"
    "map cents_debit (reversalLines e) = map credit_cents (je_lines e)"
    "map cents_credit (reversalLines e) = map debit_cents (je_lines e)"
  using assms
  by (simp_all add: reversalLines_def cents_debit_def cents_credit_def or0_def comp_def
      toCents_fromCents_int4)

lemma findById_int4:
  assumes "amounts_int4 db" "JournalRepository_findById db E = Some orig"
  shows "\<forall>l \<in> set (je_lines orig). int4 (debit_cents l) \<and> int4 (credit_cents l)"
  using assms
  by (auto simp: amounts_int4_def JournalRepository_findById_def join_account_def
      split: option.splits)

lemma createReversalEntry_unfold:
  assumes "createReversalEntry env db E n d key = (Inr R, db1)"
  shows "\<exists>orig. JournalRepository_findById db E = Some orig \<and>
     createJournalEntry env db
       \<lparr>date = d, narration = n, lines = reversalLines orig, reverses_entry_id = Some E\<rparr> key
       = (Inr R, db1)"
  using assms
  by (auto simp: createReversalEntry_def getJournalEntry_def split: option.splits sum.splits)

lemma created_lines_swapped:
  assumes i: "integrity db"
    and o: "JournalRepository_findById db E = Some orig"
    and sub: "set accs \<subseteq> set (accounts db)"
    and v: "map account_code (lines v) = map line_account_code (je_lines orig)"
           "map cents_debit (lines v) = map credit_cents (je_lines orig)"
           "map cents_credit (lines v) = map debit_cents (je_lines orig)"
    and c: "JournalRepository_create env db v accs = (Inr R, dbm)"
  shows "list_all2 swapped_line (je_lines R) (je_lines orig)"
proof -
  define m where "m = fold (\<lambda>account m. m(a_code account \<mapsto> account)) accs Map.empty"
  define ls where "ls = je_lines R"
  define os where "os = je_lines orig"
  from JournalRepository_create_Inr[OF c]
  have cl: "create_lines db m (uuidv4 env) 0 (lines v) = Inr ls"
    unfolding m_def ls_def by blast
  note f = create_lines_Inr[OF cl]
  from f have la: "list_all2 (\<lambda>l q. \<exists>a. m (account_code q) = Some a \<and> account_id l = a_id a \<and>
                  line_account_code l = a_code a) ls (lines v)"
    by blast
  from la have len1: "length ls = length (lines v)" by (rule list_all2_lengthD)
  from v(1) have len2: "length (lines v) = length os"
    unfolding os_def by (rule map_eq_imp_length_eq)
  from findById_lines[OF i o]
  have jo: "list_all2 (joined_with db) os (lines_of db E)"
    and io: "map line_index os = [0..<length os]"
    unfolding os_def by simp_all
  from i have dc: "distinct (map a_code (accounts db))" by (simp add: integrity_def)
  have mv: "a \<in> set (accounts db) \<and> a_code a = k" if "m k = Some a" for k a
    using accountMap_value[of accs Map.empty k a] that sub unfolding m_def by auto
  have "swapped_line (ls ! j) (os ! j)" if j: "j < length ls" for j
  proof -
    from j len1 len2 have jv: "j < length (lines v)" and jo': "j < length os" by simp_all
    from la j obtain a where a: "m (account_code (lines v ! j)) = Some a"
      "account_id (ls ! j) = a_id a" "line_account_code (ls ! j) = a_code a"
      by (auto simp: list_all2_conv_all_nth)
    from mv[OF a(1)] have am: "a \<in> set (accounts db)" "a_code a = account_code (lines v ! j)"
      by simp_all
    from map_eq_nth[OF v(1) jv] have code: "account_code (lines v ! j) = line_account_code (os ! j)"
      by (simp add: os_def)
    from jo jo' obtain a' where a': "a' \<in> set (accounts db)" "a_id a' = account_id (os ! j)"
      "a_code a' = line_account_code (os ! j)"
      by (auto simp: list_all2_conv_all_nth joined_with_def)
    from dc am a' code have "a = a'"
      by (auto simp: distinct_map inj_on_def)
    with a a' have acc: "account_id (ls ! j) = account_id (os ! j)"
      "line_account_code (ls ! j) = line_account_code (os ! j)" by simp_all
    from f have "map debit_cents ls = map cents_debit (lines v)"
      "map credit_cents ls = map cents_credit (lines v)" by simp_all
    with v(2,3) have "map debit_cents ls = map credit_cents os" "map credit_cents ls = map debit_cents os"
      by (simp_all add: os_def)
    from map_eq_nth[OF this(1) j] map_eq_nth[OF this(2) j]
    have amt: "debit_cents (ls ! j) = credit_cents (os ! j)" "credit_cents (ls ! j) = debit_cents (os ! j)"
      by simp_all
    from f len1 len2 io have "map line_index ls = map line_index os" by simp
    from map_eq_nth[OF this j] have "line_index (ls ! j) = line_index (os ! j)" .
    with acc amt show ?thesis by (simp add: swapped_line_def)
  qed
  with len1 len2 show ?thesis
    unfolding ls_def[symmetric] os_def[symmetric] by (simp add: list_all2_conv_all_nth)
qed

lemma reversal_step:
  assumes i: "integrity db"
    and a: "amounts_int4 db"
    and r: "createReversalEntry env db E n d key = (Inr R, db1)"
    and new: "je_id R \<notin> r_id ` set (journal_entries db)"
  shows "\<exists>orig. JournalRepository_findById db E = Some orig \<and>
     createJournalEntry env db
       \<lparr>date = d, narration = n, lines = reversalLines orig, reverses_entry_id = Some E\<rparr> key
       = (Inr R, db1) \<and>
     je_reverses_entry_id R = Some E \<and>
     list_all2 swapped_line (je_lines R) (je_lines orig) \<and>
     JournalRepository_findById db1 (je_id R) = Some R \<and>
     (\<forall>x \<in> r_id ` set (journal_entries db).
        JournalRepository_findById db1 x = JournalRepository_findById db x)"
proof -
  from createReversalEntry_unfold[OF r] obtain orig where
    o: "JournalRepository_findById db E = Some orig"
    and c: "createJournalEntry env db
       \<lparr>date = d, narration = n, lines = reversalLines orig, reverses_entry_id = Some E\<rparr> key
       = (Inr R, db1)"
    by blast
  define req where "req = \<lparr>date = d, narration = n, lines = reversalLines orig, reverses_entry_id = Some E\<rparr>"
  define v where "v = snd (journalEntrySchema (end_of_today env) req)"
  from c have c': "createJournalEntry env db req key = (Inr R, db1)" by (simp add: req_def)
  have not_replay: "JournalRepository_findById db x \<noteq> Some R" for x
    using findById_Some[of db x R] new by auto
  from createJournalEntry_Inr[OF c'] not_replay obtain accs where
    ce: "check_entry db v = Inr accs" and pe: "post_entry env db v accs key = (Inr R, db1)"
    unfolding v_def by auto
  from createJournalEntry_Inr[OF c'] have ok: "fst (journalEntrySchema (end_of_today env) req) = []"
    by simp
  note rm = reversalLines_maps[OF findById_int4[OF a o]]
  have small: "\<forall>l \<in> set (lines req). \<bar>cents_debit l\<bar> \<le> 2 ^ 50 \<and> \<bar>cents_credit l\<bar> \<le> 2 ^ 50"
  proof
    fix l assume "l \<in> set (lines req)"
    then obtain j where j: "j < length (reversalLines orig)" "l = reversalLines orig ! j"
      by (auto simp: req_def in_set_conv_nth)
    from j(1) have jo: "j < length (je_lines orig)" by (simp add: reversalLines_def)
    from map_eq_nth[OF rm(2) j(1)] map_eq_nth[OF rm(3) j(1)] j(2)
    have "cents_debit l = credit_cents (je_lines orig ! j)" "cents_credit l = debit_cents (je_lines orig ! j)"
      by simp_all
    moreover from findById_int4[OF a o] nth_mem[OF jo]
    have "int4 (debit_cents (je_lines orig ! j))" "int4 (credit_cents (je_lines orig ! j))"
      by blast+
    ultimately show "\<bar>cents_debit l\<bar> \<le> 2 ^ 50 \<and> \<bar>cents_credit l\<bar> \<le> 2 ^ 50"
      using int4_small by presburger
  qed
  from post_entry_Inr[OF pe] obtain dbm where
    cr: "JournalRepository_create env db v accs = (Inr R, dbm)"
    and db1: "db1 = dbm \<or> (\<exists>ks. db1 = dbm\<lparr>idempotency_keys := ks\<rparr>)"
    by blast
  from db1 have same: "JournalRepository_findById db1 x = JournalRepository_findById dbm x" for x
    by auto
  note sub = check_entry_accounts[OF ce]
  have vm: "map account_code (lines v) = map line_account_code (je_lines orig)"
    "map cents_debit (lines v) = map credit_cents (je_lines orig)"
    "map cents_credit (lines v) = map debit_cents (je_lines orig)"
    unfolding v_def using schema_lines[OF ok small] rm by (simp_all add: req_def)
  from JournalRepository_create_Inr[OF cr] have "je_reverses_entry_id R = reverses_entry_id v"
    by simp
  then have 1: "je_reverses_entry_id R = Some E"
    by (simp add: v_def schema_snd_fields req_def)
  note 2 = created_lines_swapped[OF i o sub vm cr]
  from findById_created[OF i sub cr] have 3: "JournalRepository_findById db1 (je_id R) = Some R"
    by (simp add: same)
  have 4: "\<forall>x \<in> r_id ` set (journal_entries db).
        JournalRepository_findById db1 x = JournalRepository_findById db x"
    using findById_preserved[OF i cr] by (simp add: same)
  from o c 1 2 3 4 show ?thesis by (intro exI[of _ orig] conjI)
qed

lemma swapped_twice:
  "list_all2 swapped_line xs ys \<Longrightarrow> list_all2 swapped_line ys zs \<Longrightarrow> list_all2 same_amounts xs zs"
  by (erule (1) list_all2_trans[rotated]) (simp add: swapped_line_def same_amounts_def)

lemma first_reversal:
  "createReversalEntry (scenario_env 13) scenario_ledger 10 ''Reversal of seed capital'' 8 None
     = (Inr reversal_of_seed, scenario_reversed)"
  by code_simp

lemma second_reversal:
  "createReversalEntry (scenario_env 14) scenario_reversed (je_id reversal_of_seed)
       ''Seed capital again'' 9 None
     = (Inr seed_restored, scenario_restored)"
  by code_simp

lemma reversal_ids_new:
  "je_id reversal_of_seed \<notin> r_id ` set (journal_entries scenario_ledger)"
  "je_id seed_restored \<notin> r_id ` set (journal_entries scenario_reversed)"
  by code_simp+

subsection \<open>The date rule\<close>

lemma end_of_today_local:
  "end_of_today env = new_Date (local_date env) + 86399999 + getTimezoneOffset env * 60000"
  by (simp add: end_of_today_def local_date_def new_Date_def Let_def)

lemma date_rule_west:
  assumes "0 < getTimezoneOffset env"
  shows "\<not> new_Date (local_date env + 1) > end_of_today env" "\<not> new_Date (local_date env) > end_of_today env"
  using assms by (simp_all add: end_of_today_local new_Date_def algebra_simps)

lemma schema_date_independent:
  assumes "\<not> new_Date d > t" "\<not> new_Date (date r) > t"
  shows "journalEntrySchema t (r\<lparr>date := d\<rparr>)
           = (fst (journalEntrySchema t r), (snd (journalEntrySchema t r))\<lparr>date := d\<rparr>)"
  using assms by (simp add: journalEntrySchema_def Let_def)

lemma validateDoubleEntryRules_date:
  "validateDoubleEntryRules (v\<lparr>date := d\<rparr>) = validateDoubleEntryRules v"
  by (simp add: validateDoubleEntryRules_def)

lemma check_entry_date: "check_entry db (v\<lparr>date := d\<rparr>) = check_entry db v"
  by (auto simp: check_entry_def validateDoubleEntryRules_date Let_def split: sum.splits)

lemma JournalRepository_create_date:
  assumes "JournalRepository_create env db v accs = (Inr e, db')"
  shows "JournalRepository_create env db (v\<lparr>date := d\<rparr>) accs =
           (Inr (e\<lparr>je_date := d\<rparr>),
            db'\<lparr>journal_entries := journal_entries db @ [new_entry_row env (v\<lparr>date := d\<rparr>)]\<rparr>)"
  using assms
  by (auto simp: JournalRepository_create_def Let_def new_entry_row_def split: sum.splits if_splits)

lemma rejected_before_persistence:
  assumes "length (lines r) = 1
     \<or> (\<exists>l \<in> set (lines r). 0 < cents_debit l \<and> 0 < cents_credit l)
     \<or> (\<forall>l \<in> set (lines r). cents_debit l = 0 \<and> cents_credit l = 0)
     \<or> end_of_today env < new_Date (date r)"
  shows "\<exists>ms. createJournalEntry env db r key = (Inl (ValidationError ms), db)"
  using schema_rejects[OF assms]
  by (auto simp: createJournalEntry_def validateInput_def split: prod.splits)

subsection \<open>Calls that interleave\<close>

lemma createJournalEntry_stages:
  "run_alone db (Started env r key)
     = (Returned (fst (createJournalEntry env db r key)), snd (createJournalEntry env db r key))"
  by (auto simp: run_alone_def createJournalEntry_def post_entry_def
      split: sum.splits option.splits prod.splits)

lemma interleaved_run_alone:
  assumes "interleaved db"
  shows "interleaved (snd (run_alone db c))"
proof -
  obtain c1 db1 where 1: "resume db c = (c1, db1)" by (cases "resume db c")
  obtain c2 db2 where 2: "resume db1 c1 = (c2, db2)" by (cases "resume db1 c1")
  from interleaved_resume[OF assms, of c] 1 have "interleaved db1" by simp
  from interleaved_resume[OF this, of c1] 2 have "interleaved db2" by simp
  from interleaved_resume[OF this, of c2] 1 2 show ?thesis by (simp add: run_alone_def)
qed

lemma interleaved_createJournalEntry:
  "interleaved db \<Longrightarrow> interleaved (snd (createJournalEntry env db r key))"
  using interleaved_run_alone[of db "Started env r key"] by (simp add: createJournalEntry_stages)

lemma reachable_interleaved: "reachable db \<Longrightarrow> interleaved db"
proof (induction rule: reachable.induct)
  case reachable_empty
  show ?case by (rule interleaved_empty)
next
  case (reachable_createAccount db env accountData)
  then show ?case by (intro interleaved_createAccount)
next
  case (reachable_createJournalEntry db env entryData idempotencyKey)
  then show ?case by (intro interleaved_createJournalEntry)
next
  case (reachable_createReversalEntry db env originalEntryId narration' reversalDate idempotencyKey)
  then show ?case
    using interleaved_createJournalEntry[of db]
    by (auto simp: createReversalEntry_def split: sum.splits)
qed

lemma resume_mapped:
  assumes "mapped_entries_exist db"
  shows "mapped_entries_exist (snd (resume db c))"
proof (cases c)
  case (Started env r key)
  with assms show ?thesis by (auto split: sum.splits option.splits)
next
  case (Checked env v accs key)
  from JournalRepository_create_cases[of env db v accs] assms
  have "mapped_entries_exist (snd (JournalRepository_create env db v accs))"
    by (auto simp: mapped_entries_exist_def)
  with Checked show ?thesis by (auto split: prod.splits sum.splits option.splits)
next
  case (Committed env v e key)
  from assms have "mapped_entries_exist (snd (recordRequest env db key (requestBody v) (je_id e)))"
    by (auto simp: recordRequest_cases mapped_entries_exist_def)
  with Committed show ?thesis by (auto split: prod.splits sum.splits)
next
  case (Returned res)
  with assms show ?thesis by simp
qed

lemma interleaved_mapped: "interleaved db \<Longrightarrow> mapped_entries_exist db"
proof (induction rule: interleaved.induct)
  case interleaved_empty
  show ?case by (simp add: mapped_entries_exist_def empty_db_def)
next
  case (interleaved_createAccount db env accountData)
  then show ?case
    by (auto simp: mapped_entries_exist_def createAccount_def AccountRepository_create_def Let_def
        split: sum.splits option.splits)
next
  case (interleaved_resume db c)
  then show ?case by (intro resume_mapped)
qed

lemma failed_call_writes_nothing:
  assumes i: "integrity db"
    and c: "createJournalEntry env db r key = (Inl err, db')"
    and short: "\<forall>k. key = Some k \<longrightarrow> length k \<le> 255"
  shows "db' = db"
proof (rule ccontr)
  assume ne: "db' \<noteq> db"
  define v where "v = snd (journalEntrySchema (end_of_today env) r)"
  from c ne obtain accs where
    h: "handle_idempotency env db v key = Inr None"
    and pe: "post_entry env db v accs key = (Inl err, db')"
    by (auto simp: createJournalEntry_def validateInput_def v_def
        split: sum.splits option.splits if_splits prod.splits)
  from post_entry_Inl[OF pe] ne obtain e k where
    cr: "JournalRepository_create env db v accs = (Inr e, db')" and k: "key = Some k" "k \<noteq> []"
    by auto
  from JournalRepository_create_Inr[OF cr]
  have keys: "idempotency_keys db' = idempotency_keys db"
    and new: "je_id e \<in> r_id ` set (journal_entries db')"
    by (simp_all add: new_entry_row_def)
  from pe cr k have rr: "fst (recordRequest env db' k (requestBody v) (je_id e)) = Inl err"
    by (auto simp: post_entry_def split: prod.splits sum.splits)
  from h k have nb: "\<not> blank k"
    by (auto simp: handle_idempotency_key split: if_splits)
  from short k have len: "length k \<le> 255" by simp
  have nk: "k \<notin> k_key ` set (idempotency_keys db)"
  proof
    assume "k \<in> k_key ` set (idempotency_keys db)"
    from find_key_Some[OF this] obtain row where
      f: "IdempotencyRepository_findByKey db k = Some row"
      by (auto simp: IdempotencyRepository_findByKey_def)
    from find_SomeD[OF f[unfolded IdempotencyRepository_findByKey_def]] i
    have "k_entry_id row \<in> r_id ` set (journal_entries db)" by (auto simp: integrity_def)
    then have "JournalRepository_findById db (k_entry_id row) \<noteq> None" by (simp add: findById_None)
    with h k nb f show False
      by (auto simp: handle_idempotency_key split: if_splits)
  qed
  from rr nb len nk new keys show False by (simp add: recordRequest_cases)
qed

lemma interleaved_interleave:
  "interleaved db \<Longrightarrow> interleaved (snd (snd (interleave n db a b)))"
proof (induction n arbitrary: db a b)
  case 0
  then show ?case by simp
next
  case (Suc n)
  obtain a' db1 where 1: "resume db a = (a', db1)" by (cases "resume db a")
  obtain b' db2 where 2: "resume db1 b = (b', db2)" by (cases "resume db1 b")
  from interleaved_resume[OF Suc.prems, of a] 1 have "interleaved db1" by simp
  from interleaved_resume[OF this, of b] 2 have "interleaved db2" by simp
  from Suc.IH[OF this] 1 2 show ?case by simp
qed

lemma raced_rows [code]:
  "raced =
     (Some (Inr \<lparr>je_id = 13, je_date = 5, je_narration = ''Cash sale'',
                 je_reverses_entry_id = None,
                 je_lines =
                   [\<lparr>entry_id = 13, account_id = 1, line_account_code = ''1001'',
                     debit_cents = 50000, credit_cents = 0, line_index = 0\<rparr>,
                    \<lparr>entry_id = 13, account_id = 3, line_account_code = ''4001'',
                     debit_cents = 0, credit_cents = 50000, line_index = 1\<rparr>]\<rparr>),
      Some (Inl (ConflictError (KeyAlreadyExists ''key-2''))),
     \<lparr>accounts =
     [\<lparr>a_id = 1, a_code = ''1001'', a_name = ''Cash'', a_type = Asset\<rparr>,
     \<lparr>a_id = 2, a_code = ''3001'', a_name = ''Capital'', a_type = Equity\<rparr>,
     \<lparr>a_id = 3, a_code = ''4001'', a_name = ''Sales'', a_type = Revenue\<rparr>,
     \<lparr>a_id = 4, a_code = ''5001'', a_name = ''Rent'', a_type = Expense\<rparr>],
     journal_entries =
     [\<lparr>r_id = 10, r_date = 1, r_narration = ''Seed capital'',
     r_reverses_entry_id = None\<rparr>,
     \<lparr>r_id = 11, r_date = 5, r_narration = ''Cash sale'',
     r_reverses_entry_id = None\<rparr>,
     \<lparr>r_id = 12, r_date = 7, r_narration = ''Office rent'',
     r_reverses_entry_id = None\<rparr>,
     \<lparr>r_id = 13, r_date = 5, r_narration = ''Cash sale'',
     r_reverses_entry_id = None\<rparr>,
     \<lparr>r_id = 14, r_date = 5, r_narration = ''Cash sale'',
     r_reverses_entry_id = None\<rparr>],
     journal_lines =
     [\<lparr>l_entry_id = 10, l_account_id = 1, l_debit_cents = 100000,
     l_credit_cents = 0, l_line_index = 0\<rparr>,
     \<lparr>l_entry_id = 10, l_account_id = 2, l_debit_cents = 0,
     l_credit_cents = 100000, l_line_index = 1\<rparr>,
     \<lparr>l_entry_id = 11, l_account_id = 1, l_debit_cents = 50000,
     l_credit_cents = 0, l_line_index = 0\<rparr>,
     \<lparr>l_entry_id = 11, l_account_id = 3, l_debit_cents = 0,
     l_credit_cents = 50000, l_line_index = 1\<rparr>,
     \<lparr>l_entry_id = 12, l_account_id = 4, l_debit_cents = 20000,
     l_credit_cents = 0, l_line_index = 0\<rparr>,
     \<lparr>l_entry_id = 12, l_account_id = 1, l_debit_cents = 0,
     l_credit_cents = 20000, l_line_index = 1\<rparr>,
     \<lparr>l_entry_id = 13, l_account_id = 1, l_debit_cents = 50000,
     l_credit_cents = 0, l_line_index = 0\<rparr>,
     \<lparr>l_entry_id = 13, l_account_id = 3, l_debit_cents = 0,
     l_credit_cents = 50000, l_line_index = 1\<rparr>,
     \<lparr>l_entry_id = 14, l_account_id = 1, l_debit_cents = 50000,
     l_credit_cents = 0, l_line_index = 0\<rparr>,
     \<lparr>l_entry_id = 14, l_account_id = 3, l_debit_cents = 0,
     l_credit_cents = 50000, l_line_index = 1\<rparr>],
     idempotency_keys =
     [\<lparr>k_key = ''key-1'',
     k_request_hash =
     ''{date:d+i,lines:[{},{},],narration:<Seed capital>,}'',
     k_entry_id = 10\<rparr>,
     \<lparr>k_key = ''key-2'',
     k_request_hash =
     ''{date:d+iiiii,lines:[{},{},],narration:<Cash sale>,}'',
     k_entry_id = 13\<rparr>]\<rparr>)"
  by code_simp

section \<open>The claims\<close>

text \<open>
  C1. In every state that the operations can reach, each journal entry of the ledger has
  equal sums of \<open>debit_cents\<close> and \<open>credit_cents\<close> over its lines, and the sum is
  positive; an entry that passes \<open>validateDoubleEntryRules\<close> and is written by
  \<open>JournalRepository.create\<close> is returned and stored with such lines. Consequently the
  trial balance of every date range has equal totals, and the self-check of the
  service never fails.
\<close>

theorem C1_ledger_invariant:
  assumes "reachable db"
  shows "ledger_balanced db \<and>
    (\<forall>fromDate toDate.
       tb_total_debits (getTrialBalance db fromDate toDate)
         = tb_total_credits (getTrialBalance db fromDate toDate) \<and>
       (fromDate \<le> toDate \<longrightarrow>
          BalanceService_getTrialBalance db fromDate toDate = Inr (getTrialBalance db fromDate toDate))) \<and>
    (\<forall>env r accs e db'.
       validateDoubleEntryRules r = Inr () \<and> JournalRepository_create env db r accs = (Inr e, db') \<longrightarrow>
         sum_list (map debit_cents (je_lines e)) = sum_list (map credit_cents (je_lines e)) \<and>
         0 < sum_list (map debit_cents (je_lines e)) \<and>
         lines_of db' (je_id e) = map line_row (je_lines e) \<and>
         je_id e \<in> r_id ` set (journal_entries db'))"
proof -
  from reachable_inv[OF assms] have i: "integrity db" and b: "ledger_balanced db" by simp_all
  have t: "tb_total_debits (getTrialBalance db f t) = tb_total_credits (getTrialBalance db f t)" for f t
    by (rule trial_balance_balances[OF i b])
  have s: "BalanceService_getTrialBalance db f t = Inr (getTrialBalance db f t)" if "f \<le> t" for f t
    using that t[of f t]
    by (simp add: BalanceService_getTrialBalance_def validateInput_def trialBalanceQuerySchema_def Let_def)
  from b t s created_entry_balanced[OF i] show ?thesis by blast
qed

theorem C1_ledger_invariant_witness:
  "reachable scenario_ledger \<and> ledger_balanced scenario_ledger \<and>
   tb_total_debits (getTrialBalance scenario_ledger 1 31) = 170000 \<and>
   tb_total_credits (getTrialBalance scenario_ledger 1 31) = 170000 \<and>
   BalanceService_getTrialBalance scenario_ledger 1 31 = Inr (getTrialBalance scenario_ledger 1 31)"
proof -
  have d: "tb_total_debits (getTrialBalance scenario_ledger 1 31) = 170000"
    by code_simp
  from C1_ledger_invariant[OF reachable_scenario_ledger]
  have "ledger_balanced scenario_ledger"
    and "tb_total_debits (getTrialBalance scenario_ledger 1 31)
         = tb_total_credits (getTrialBalance scenario_ledger 1 31)"
    and "BalanceService_getTrialBalance scenario_ledger 1 31 = Inr (getTrialBalance scenario_ledger 1 31)"
    by simp_all
  with d reachable_scenario_ledger show ?thesis by simp
qed

text \<open>
  C10 (the date). An entry dated after the current date is not always rejected. The
  date rule compares the midnight of the entry date in UTC with the end of the current
  day in the time zone of the server: on a server west of Greenwich the rule lets the
  next day pass. There, whenever an entry dated today is posted, the same entry dated
  tomorrow is posted as well, and its row is written to the ledger. (An entry with a
  single line, with both sides set on a line, or with zero amounts on every line is
  rejected by the schema and nothing is written, as is an entry whose date at midnight
  UTC is later than the end of the server's day: lemma \<open>rejected_before_persistence\<close>.)
\<close>

theorem C10_entry_dated_tomorrow_is_posted:
  assumes west: "0 < getTimezoneOffset env"
    and today: "createJournalEntry env db (r\<lparr>date := local_date env\<rparr>) None = (Inr e, db')"
  shows "\<exists>db''. createJournalEntry env db (r\<lparr>date := local_date env + 1\<rparr>) None
                  = (Inr (e\<lparr>je_date := local_date env + 1\<rparr>), db'') \<and>
           new_entry_row env (r\<lparr>date := local_date env + 1\<rparr>) \<in> set (journal_entries db'') \<and>
           r_id (new_entry_row env (r\<lparr>date := local_date env + 1\<rparr>)) = je_id e"
proof -
  define t where "t = end_of_today env"
  define r0 where "r0 = r\<lparr>date := local_date env\<rparr>"
  define v where "v = snd (journalEntrySchema t r0)"
  have d0: "\<not> new_Date (date r0) > t" using date_rule_west(2)[OF west] by (simp add: r0_def t_def)
  have d1: "\<not> new_Date (local_date env + 1) > t" using date_rule_west(1)[OF west] by (simp add: t_def)
  have r1: "r\<lparr>date := local_date env + 1\<rparr> = r0\<lparr>date := local_date env + 1\<rparr>" by (simp add: r0_def)
  note s = schema_date_independent[OF d1 d0, folded v_def]
  from today have c: "createJournalEntry env db r0 None = (Inr e, db')" by (simp add: r0_def)
  from createJournalEntry_Inr[OF c] obtain accs where
    ok: "fst (journalEntrySchema t r0) = []"
    and ce: "check_entry db v = Inr accs"
    and pe: "post_entry env db v accs None = (Inr e, db')"
    unfolding t_def v_def by auto
  from pe have cr: "JournalRepository_create env db v accs = (Inr e, db')"
    by (auto simp: post_entry_def split: prod.splits sum.splits)
  note cd = JournalRepository_create_date[OF cr, of "local_date env + 1"]
  have row: "new_entry_row env (v\<lparr>date := local_date env + 1\<rparr>) = new_entry_row env (r\<lparr>date := local_date env + 1\<rparr>)"
    by (simp add: new_entry_row_def v_def schema_snd_fields r0_def)
  have "createJournalEntry env db (r\<lparr>date := local_date env + 1\<rparr>) None
      = (Inr (e\<lparr>je_date := local_date env + 1\<rparr>),
         db'\<lparr>journal_entries := journal_entries db @ [new_entry_row env (r\<lparr>date := local_date env + 1\<rparr>)]\<rparr>)"
    unfolding r1 createJournalEntry_def t_def[symmetric] s
    using ok ce cd
    by (simp add: validateInput_def handle_idempotency_def check_entry_date post_entry_def row r1[symmetric])
  moreover from JournalRepository_create_Inr[OF cr] have "je_id e = uuidv4 env" by simp
  ultimately show ?thesis by (intro exI) (auto simp: new_entry_row_def)
qed

theorem C10_entry_dated_tomorrow_is_posted_witness:
  "0 < getTimezoneOffset (west_env 13) \<and> local_date (west_env 13) = 100 \<and>
   now (west_env 13) div 86400000 = 100 \<and>
   (\<exists>db''. createJournalEntry (west_env 13) scenario_ledger (cash_sale\<lparr>date := 101\<rparr>) None
            = (Inr (sale_posted\<lparr>je_date := 101\<rparr>), db'') \<and>
          \<lparr>r_id = 13, r_date = 101, r_narration = ''Cash sale'', r_reverses_entry_id = None\<rparr>
            \<in> set (journal_entries db'')) \<and>
   createJournalEntry (scenario_env 13) scenario_ledger (cash_sale\<lparr>date := 101\<rparr>) None
     = (Inl (ValidationError [Joi At_date custom_futureDate]), scenario_ledger)"
proof -
  have w: "0 < getTimezoneOffset (west_env 13)" by (simp add: west_env_def)
  have l: "local_date (west_env 13) = 100" "now (west_env 13) div 86400000 = 100"
    by (simp_all add: west_env_def local_date_def)
  have "fst (createJournalEntry (west_env 13) scenario_ledger (cash_sale\<lparr>date := 100\<rparr>) None)
          = Inr sale_posted"
    by code_simp
  then have t: "createJournalEntry (west_env 13) scenario_ledger
                  (cash_sale\<lparr>date := local_date (west_env 13)\<rparr>) None
        = (Inr sale_posted,
           snd (createJournalEntry (west_env 13) scenario_ledger (cash_sale\<lparr>date := 100\<rparr>) None))"
    unfolding l by (simp add: prod_eq_iff)
  have u: "createJournalEntry (scenario_env 13) scenario_ledger (cash_sale\<lparr>date := 101\<rparr>) None
     = (Inl (ValidationError [Joi At_date custom_futureDate]), scenario_ledger)"
    by code_simp
  have n: "new_entry_row (west_env 13) (cash_sale\<lparr>date := 101\<rparr>)
        = \<lparr>r_id = 13, r_date = 101, r_narration = ''Cash sale'', r_reverses_entry_id = None\<rparr>"
    by (simp add: new_entry_row_def west_env_def cash_sale_def)
  have e: "local_date (west_env 13) + 1 = 101" by (simp add: l)
  from C10_entry_dated_tomorrow_is_posted[OF w t, unfolded e n] w l u show ?thesis
    by auto
qed




text \<open>
  C5 (the case with no line up to the date). For an account of the directory none of
  whose lines belongs to an entry dated on or before \<open>asOf\<close> (in particular an account
  without lines), the balance query with that \<open>asOf\<close> fails with NotFound instead of
  returning zero debits, credits and balance: the WHERE clause \<open>je.date <= $2\<close> drops
  every row of the account, the NULL row of the left join included.
\<close>

theorem C5_as_of_without_rows_is_not_found:
  assumes "accountCode \<noteq> []" "accountCode \<in> a_code ` set (accounts db)"
    and "\<forall>a \<in> set (accounts db). \<forall>l \<in> set (journal_lines db). \<forall>e \<in> set (journal_entries db).
           a_code a = accountCode \<and> l_account_id l = a_id a \<and> r_id e = l_entry_id l \<longrightarrow> asOf < r_date e"
  shows "BalanceService_getAccountBalance db accountCode (Some asOf)
           = Inl (NotFoundError (NoBalanceData accountCode))"
proof -
  from assms(2) obtain a where "a \<in> set (accounts db)" "a_code a = accountCode" by auto
  then obtain y where y: "AccountRepository_findByCode db accountCode = Some y"
    unfolding AccountRepository_findByCode_def
    using find_Some_if_member[of a "accounts db" "\<lambda>a. a_code a = accountCode"] by auto
  have "filter (\<lambda>(a, jl, je). a_code a = accountCode \<and>
           (case Some asOf of None \<Rightarrow> True
            | Some d \<Rightarrow> (case je of None \<Rightarrow> False | Some e \<Rightarrow> r_date e \<le> d))) (from_clause db) = []"
  proof -
    have False if r: "(a, jl, je) \<in> set (from_clause db)" and c: "a_code a = accountCode"
      and d: "case je of None \<Rightarrow> False | Some e \<Rightarrow> r_date e \<le> asOf" for a jl je
    proof -
      from d obtain e where je: "je = Some e" and le: "r_date e \<le> asOf"
        by (cases je) auto
      from r je obtain l where "jl = Some l"
        by (cases jl) (auto simp: in_from_clause)
      with r je have "a \<in> set (accounts db)" "l \<in> set (journal_lines db)" "e \<in> set (journal_entries db)"
        "l_account_id l = a_id a" "r_id e = l_entry_id l"
        by (simp_all add: in_from_clause)
      with assms(3) c have "asOf < r_date e" by blast
      with le show False by simp
    qed
    then show ?thesis
      unfolding filter_empty_conv by (auto simp del: split_paired_All)
  qed
  then have "getAccountBalance db accountCode (Some asOf) = None"
    by (simp add: getAccountBalance_def group_by_def)
  with y assms(1) show ?thesis
    by (simp add: BalanceService_getAccountBalance_def getAccount_def)
qed

theorem C5_as_of_without_rows_is_not_found_witness:
  "''5001'' \<in> a_code ` set (accounts scenario_ledger) \<and>
   BalanceService_getAccountBalance scenario_ledger ''5001'' (Some 5)
     = Inl (NotFoundError (NoBalanceData ''5001'')) \<and>
   BalanceService_getAccountBalance scenario_accounts ''5001'' (Some 5)
     = Inl (NotFoundError (NoBalanceData ''5001''))"
proof -
  have 1: "''5001'' \<noteq> []" by simp
  have 2: "''5001'' \<in> a_code ` set (accounts scenario_ledger)" by code_simp
  have 3: "\<forall>a \<in> set (accounts scenario_ledger). \<forall>l \<in> set (journal_lines scenario_ledger).
             \<forall>e \<in> set (journal_entries scenario_ledger).
               a_code a = ''5001'' \<and> l_account_id l = a_id a \<and> r_id e = l_entry_id l \<longrightarrow> 5 < r_date e"
    by code_simp
  have 4: "''5001'' \<in> a_code ` set (accounts scenario_accounts)" by code_simp
  have 5: "\<forall>a \<in> set (accounts scenario_accounts). \<forall>l \<in> set (journal_lines scenario_accounts).
             \<forall>e \<in> set (journal_entries scenario_accounts).
               a_code a = ''5001'' \<and> l_account_id l = a_id a \<and> r_id e = l_entry_id l \<longrightarrow> 5 < r_date e"
    by code_simp
  from C5_as_of_without_rows_is_not_found[OF 1 2 3] C5_as_of_without_rows_is_not_found[OF 1 4 5] 2
  show ?thesis by simp
qed

text \<open>
  C6 (the accounts whose only activity lies outside the range). In a reachable state,
  an account that has lines, all of them in entries dated outside \<open>[from, to]\<close>, has no
  row in the trial balance of that range: the WHERE clause keeps the NULL row of an
  account without lines, but drops every row of an account whose lines are out of range.
\<close>

theorem C6_activity_outside_range_has_no_row:
  assumes "reachable db" "a \<in> set (accounts db)"
    and "\<exists>l \<in> set (journal_lines db). l_account_id l = a_id a"
    and "\<forall>l \<in> set (journal_lines db). \<forall>e \<in> set (journal_entries db).
           l_account_id l = a_id a \<and> r_id e = l_entry_id l \<longrightarrow> \<not> (fromDate \<le> r_date e \<and> r_date e \<le> toDate)"
  shows "a_code a \<notin> ab_account_code ` set (tb_accounts (getTrialBalance db fromDate toDate))"
proof
  assume "a_code a \<in> ab_account_code ` set (tb_accounts (getTrialBalance db fromDate toDate))"
  then obtain a' jl je where r: "(a', jl, je) \<in> set (from_clause db)" "in_range fromDate toDate (a', jl, je)"
    and c: "a_code a' = a_code a"
    unfolding report_codes by force
  from reachable_inv[OF assms(1)] have i: "integrity db" by simp
  from r(1) have "a' \<in> set (accounts db)" by (simp add: in_from_clause)
  with i assms(2) c have "a' = a"
    by (auto simp: integrity_def distinct_map inj_on_def)
  with r have r': "(a, jl, je) \<in> set (from_clause db)" "in_range fromDate toDate (a, jl, je)"
    by simp_all
  from assms(3) r'(1) obtain l where jl: "jl = Some l" and l: "l \<in> set (journal_lines db)" "l_account_id l = a_id a"
    by (cases jl) (auto simp: in_from_clause)
  from i l(1) obtain e0 where "e0 \<in> set (journal_entries db)" "l_entry_id l = r_id e0"
    by (auto simp: integrity_def)
  with r'(1) jl obtain e where je: "je = Some e" and e: "e \<in> set (journal_entries db)" "r_id e = l_entry_id l"
    by (cases je) (auto simp: in_from_clause)
  from assms(4) l e have "\<not> (fromDate \<le> r_date e \<and> r_date e \<le> toDate)" by blast
  with r'(2) je show False by (simp add: in_range_def)
qed

theorem C6_activity_outside_range_has_no_row_witness:
  "reachable scenario_ledger \<and>
   \<lparr>a_id = 4, a_code = ''5001'', a_name = ''Rent'', a_type = Expense\<rparr> \<in> set (accounts scenario_ledger) \<and>
   ''5001'' \<notin> ab_account_code ` set (tb_accounts (getTrialBalance scenario_ledger 1 6)) \<and>
   length (tb_accounts (getTrialBalance scenario_ledger 1 6)) = 3 \<and>
   length (accounts scenario_ledger) = 4"
proof -
  let ?a = "\<lparr>a_id = 4, a_code = ''5001'', a_name = ''Rent'', a_type = Expense\<rparr>"
  have 1: "?a \<in> set (accounts scenario_ledger)" by code_simp
  have 2: "\<exists>l \<in> set (journal_lines scenario_ledger). l_account_id l = a_id ?a" by code_simp
  have 3: "\<forall>l \<in> set (journal_lines scenario_ledger). \<forall>e \<in> set (journal_entries scenario_ledger).
             l_account_id l = a_id ?a \<and> r_id e = l_entry_id l \<longrightarrow> \<not> (1 \<le> r_date e \<and> r_date e \<le> 6)"
    by code_simp
  have 4: "length (tb_accounts (getTrialBalance scenario_ledger 1 6)) = 3" by code_simp
  have 5: "length (accounts scenario_ledger) = 4" by code_simp
  from C6_activity_outside_range_has_no_row[OF reachable_scenario_ledger 1 2 3]
  have "''5001'' \<notin> ab_account_code ` set (tb_accounts (getTrialBalance scenario_ledger 1 6))"
    by simp
  with reachable_scenario_ledger 1 4 5 show ?thesis by simp
qed

text \<open>
  C9 (the kind of the error). Creating an account whose code is already in the
  directory fails and leaves the directory as it was, but the error is a validation
  error, raised by the check of \<open>AccountService.createAccount\<close> before the INSERT whose
  unique violation \<open>AccountRepository.create\<close> would turn into a Conflict.
\<close>

theorem C9_duplicate_code_is_validation_error:
  assumes "car_code accountData \<in> a_code ` set (accounts db)"
  shows "createAccount env db accountData =
           (Inl (ValidationError (if accountSchema accountData = []
                                  then [AccountAlreadyExists (car_code accountData)]
                                  else accountSchema accountData)), db)"
proof -
  from assms obtain a where "a \<in> set (accounts db)" "a_code a = car_code accountData"
    by auto
  then obtain y where "AccountRepository_findByCode db (car_code accountData) = Some y"
    unfolding AccountRepository_findByCode_def
    using find_Some_if_member[of a "accounts db" "\<lambda>a. a_code a = car_code accountData"] by auto
  then show ?thesis
    by (simp add: createAccount_def validateInput_def)
qed

theorem C9_duplicate_code_is_validation_error_witness:
  "''1001'' \<in> a_code ` set (accounts scenario_accounts) \<and>
   createAccount (scenario_env 5) scenario_accounts
     \<lparr>car_code = ''1001'', car_name = ''Petty cash'', car_type = Asset\<rparr>
   = (Inl (ValidationError [AccountAlreadyExists ''1001'']), scenario_accounts)"
proof -
  have h: "car_code \<lparr>car_code = ''1001'', car_name = ''Petty cash'', car_type = Asset\<rparr>
             \<in> a_code ` set (accounts scenario_accounts)"
    by code_simp
  have s: "accountSchema \<lparr>car_code = ''1001'', car_name = ''Petty cash'', car_type = Asset\<rparr> = []"
    by code_simp
  from C9_duplicate_code_is_validation_error[OF h, of "scenario_env 5"] h s
  show ?thesis by simp
qed



text \<open>
  C3 (two bodies that differ in their lines). The canonical hash of a request does not
  cover the contents of its lines: \<open>JSON.stringify\<close> is given the sorted top-level keys
  as the list of the properties to write, and applies that list to the objects of the
  lines as well, so each line is written as an empty object. After a successful call
  with key \<open>K\<close>, a call with the same key and a body that differs only in the account
  codes and amounts of its lines has the same hash, for every digest function; it is
  answered with the entry of the first call instead of a Conflict.
\<close>

theorem C3_same_key_other_lines_replayed:
  assumes "key \<noteq> []"
    and "createJournalEntry env1 db P1 (Some key) = (Inr e1, db1)"
    and "sha256 env2 = sha256 env1"
    and "date P2 = date P1" "narration P2 = narration P1"
        "reverses_entry_id P2 = reverses_entry_id P1" "length (lines P2) = length (lines P1)"
    and "fst (journalEntrySchema (end_of_today env2) P2) = []"
  shows "hashRequest env2 (requestBody (snd (journalEntrySchema (end_of_today env2) P2)))
           = hashRequest env1 (requestBody (snd (journalEntrySchema (end_of_today env1) P1))) \<and>
         (\<exists>e2. createJournalEntry env2 db1 P2 (Some key) = (Inr e2, db1) \<and> je_id e2 = je_id e1)"
proof -
  have h: "hashRequest env2 (requestBody (snd (journalEntrySchema (end_of_today env2) P2)))
      = hashRequest env1 (requestBody (snd (journalEntrySchema (end_of_today env1) P1)))"
    by (simp add: hashRequest_requestBody schema_snd_fields assms(3-7))
  from key_after_success[OF assms(2,1)] obtain e2 where
    e2: "JournalRepository_findById db1 (je_id e1) = Some e2" by blast
  from second_call[OF assms(2,1,8)] h e2
  have "createJournalEntry env2 db1 P2 (Some key) = (Inr e2, db1)" by simp
  with findById_Some[OF e2] h show ?thesis by simp
qed

theorem C3_same_key_other_lines_replayed_witness:
  "lines other_lines \<noteq> lines seed_capital \<and>
   createJournalEntry (scenario_env 10) scenario_accounts seed_capital (Some ''key-1'')
     = (Inr seed_entry, scenario_seeded) \<and>
   hashRequest (scenario_env 11) (requestBody (snd (journalEntrySchema 8726399999 other_lines)))
     = hashRequest (scenario_env 10) (requestBody (snd (journalEntrySchema 8726399999 seed_capital))) \<and>
   (\<exists>e2. createJournalEntry (scenario_env 11) scenario_seeded other_lines (Some ''key-1'')
            = (Inr e2, scenario_seeded) \<and> je_id e2 = 10)"
proof -
  have k: "''key-1'' \<noteq> []" by simp
  have d: "sha256 (scenario_env 11) = sha256 (scenario_env 10)"
    by (simp add: scenario_env_def)
  have n: "end_of_today (scenario_env 11) = 8726399999" "end_of_today (scenario_env 10) = 8726399999"
    by (simp_all add: scenario_env_def end_of_today_def)
  have f: "date other_lines = date seed_capital" "narration other_lines = narration seed_capital"
    "reverses_entry_id other_lines = reverses_entry_id seed_capital"
    "length (lines other_lines) = length (lines seed_capital)"
    by (simp_all add: other_lines_def seed_capital_def)
  have ok: "fst (journalEntrySchema (end_of_today (scenario_env 11)) other_lines) = []"
    by code_simp
  have ne: "lines other_lines \<noteq> lines seed_capital"
    by (simp add: other_lines_def seed_capital_def dr_def cr_def)
  have i: "je_id seed_entry = 10" by (simp add: seed_entry_def)
  from C3_same_key_other_lines_replayed[OF k first_posting d f ok] ne first_posting
  show ?thesis unfolding i n by simp
qed

text \<open>
  C7 (as the specification states it: no reachable state, also after a partial failure
  of create-entry with a key, has an entry without its idempotency mapping) does not
  hold. Counterexample: a request is received again, with the same key and the same
  body, while the first call is still running. Both calls look the key up before either
  has recorded it, both post; the first records the key for entry 13, the second fails
  to record it and ends with a conflict, and its entry 14 stays in the ledger without
  a mapping.
\<close>

theorem C7_atomicity_counterexample:
  "raced_first = Some (Inr (sale_posted\<lparr>je_date := 5\<rparr>)) \<and>
   raced_second = Some (Inl (ConflictError (KeyAlreadyExists ''key-2''))) \<and>
   14 \<notin> r_id ` set (journal_entries scenario_ledger) \<and>
   14 \<in> r_id ` set (journal_entries raced_db) \<and>
   14 \<notin> k_entry_id ` set (idempotency_keys raced_db) \<and>
   map k_entry_id (filter (\<lambda>k. k_key k = ''key-2'') (idempotency_keys raced_db)) = [13]"
  by code_simp

text \<open>
  C7, amended. The entry and its lines are written in one transaction; the idempotency
  mapping is written by a statement of its own after that transaction has committed
  (a call is \<open>createJournalEntry\<close> when its three parts run in a row). In every state
  that calls can reach, interleaved or not, each mapping refers to an entry that
  exists. When a call that runs alone in a state reached by such calls succeeds with a
  non-empty key, the key is mapped to the returned entry and that entry exists; when it
  fails, with no key or a key of at most 255 characters, nothing was written.
\<close>

theorem C7_mapping_follows_commit:
  "run_alone db (Started env r key)
     = (Returned (fst (createJournalEntry env db r key)), snd (createJournalEntry env db r key)) \<and>
   (interleaved db \<longrightarrow>
      (\<forall>k \<in> set (idempotency_keys db). k_entry_id k \<in> r_id ` set (journal_entries db))) \<and>
   (reachable db \<longrightarrow>
      (\<forall>k e db'. key = Some k \<and> k \<noteq> [] \<and> createJournalEntry env db r key = (Inr e, db') \<longrightarrow>
         je_id e \<in> r_id ` set (journal_entries db') \<and>
         (\<exists>row. IdempotencyRepository_findByKey db' k = Some row \<and> k_entry_id row = je_id e)) \<and>
      (\<forall>err db'. (\<forall>k. key = Some k \<longrightarrow> length k \<le> 255) \<and>
                 createJournalEntry env db r key = (Inl err, db') \<longrightarrow> db' = db))"
proof -
  have 1: "\<forall>k \<in> set (idempotency_keys db). k_entry_id k \<in> r_id ` set (journal_entries db)"
    if "interleaved db"
    using interleaved_mapped[OF that] by (simp add: mapped_entries_exist_def)
  have 2: "je_id e \<in> r_id ` set (journal_entries db') \<and>
        (\<exists>row. IdempotencyRepository_findByKey db' k = Some row \<and> k_entry_id row = je_id e)"
    if "key = Some k" "k \<noteq> []" "createJournalEntry env db r key = (Inr e, db')" for k e db'
    using key_after_success[of env db r k e db'] that by blast
  have 3: "db' = db"
    if "reachable db" "\<forall>k. key = Some k \<longrightarrow> length k \<le> 255"
      "createJournalEntry env db r key = (Inl err, db')" for err db'
  proof -
    from reachable_inv[OF that(1)] have "integrity db" by simp
    from failed_call_writes_nothing[OF this that(3,2)] show ?thesis .
  qed
  from 1 2 3 createJournalEntry_stages[of db env r key] show ?thesis by blast
qed

theorem C7_mapping_follows_commit_witness:
  "interleaved raced_db \<and>
   k_entry_id ` set (idempotency_keys raced_db) = {10, 13} \<and>
   {10, 13} \<subseteq> r_id ` set (journal_entries raced_db) \<and>
   reachable scenario_accounts \<and>
   createJournalEntry (scenario_env 10) scenario_accounts seed_capital (Some ''key-1'')
     = (Inr seed_entry, scenario_seeded) \<and>
   10 \<in> r_id ` set (journal_entries scenario_seeded) \<and>
   (\<exists>row. IdempotencyRepository_findByKey scenario_seeded ''key-1'' = Some row \<and> k_entry_id row = 10) \<and>
   reachable scenario_ledger \<and> length ''key-3'' \<le> 255 \<and>
   createJournalEntry (scenario_env 20) scenario_ledger twice_and_dangling (Some ''key-3'')
     = (Inl (ValidationError [ReversedEntryNotFound 99]), scenario_ledger)"
proof -
  have k: "''key-1'' \<noteq> []" by simp
  have i: "je_id seed_entry = 10" by (simp add: seed_entry_def)
  have "interleaved (snd (snd (interleave 3 scenario_ledger
             (Started (scenario_env 13) cash_sale (Some ''key-2''))
             (Started (scenario_env 14) cash_sale (Some ''key-2'')))))"
    by (intro interleaved_interleave reachable_interleaved reachable_scenario_ledger)
  then have il: "interleaved raced_db"
    unfolding raced_db_def raced_def by (auto split: prod.splits)
  have ks: "k_entry_id ` set (idempotency_keys raced_db) = {10, 13}" by code_simp
  from C7_mapping_follows_commit[of raced_db] il
  have "\<forall>k \<in> set (idempotency_keys raced_db).
          k_entry_id k \<in> r_id ` set (journal_entries raced_db)" by blast
  then have sub: "{10, 13} \<subseteq> r_id ` set (journal_entries raced_db)"
    unfolding ks[symmetric] by blast
  from C7_mapping_follows_commit[of scenario_accounts "scenario_env 10" seed_capital "Some ''key-1''"]
    reachable_scenario_accounts k first_posting
  have s: "je_id seed_entry \<in> r_id ` set (journal_entries scenario_seeded) \<and>
        (\<exists>row. IdempotencyRepository_findByKey scenario_seeded ''key-1'' = Some row \<and>
               k_entry_id row = je_id seed_entry)"
    by blast
  have "fst (createJournalEntry (scenario_env 20) scenario_ledger twice_and_dangling (Some ''key-3''))
          = Inl (ValidationError [ReversedEntryNotFound 99])"
    by code_simp
  then have f: "createJournalEntry (scenario_env 20) scenario_ledger twice_and_dangling (Some ''key-3'')
     = (Inl (ValidationError [ReversedEntryNotFound 99]),
        snd (createJournalEntry (scenario_env 20) scenario_ledger twice_and_dangling (Some ''key-3'')))"
    by (simp add: prod_eq_iff)
  have len: "length ''key-3'' \<le> 255" by simp
  from C7_mapping_follows_commit[of scenario_ledger "scenario_env 20" twice_and_dangling "Some ''key-3''"]
    reachable_scenario_ledger f len
  have "snd (createJournalEntry (scenario_env 20) scenario_ledger twice_and_dangling (Some ''key-3''))
          = scenario_ledger"
    by blast
  with f have u: "createJournalEntry (scenario_env 20) scenario_ledger twice_and_dangling (Some ''key-3'')
     = (Inl (ValidationError [ReversedEntryNotFound 99]), scenario_ledger)" by simp
  from il ks sub s u reachable_scenario_accounts reachable_scenario_ledger first_posting len
  show ?thesis unfolding i by simp
qed

text \<open>
  C8. A reversal reads the entry \<open>E\<close> back and posts, by \<open>createJournalEntry\<close> itself
  (schema, rules, account check and idempotency key as for any entry), the request whose
  line \<open>i\<close> names the account of line \<open>i\<close> of \<open>E\<close> with debit and credit exchanged
  and whose \<open>reverses_entry_id\<close> is the id of \<open>E\<close>. In a reachable state, when the call
  posts a new entry \<open>R\<close>, each line of \<open>R\<close> has the \<open>line_index\<close> and the account of the
  line of \<open>E\<close> at the same position, with \<open>debit_cents\<close> and \<open>credit_cents\<close> exchanged.
  When \<open>R\<close> is reversed in turn and a new entry \<open>R2\<close> is posted, the lines of \<open>R2\<close> carry
  the amounts of the lines of \<open>E\<close>, position by position; \<open>R2\<close> is an entry of its own
  (its id differs from those of \<open>E\<close> and \<open>R\<close>, it reverses \<open>R\<close>), and \<open>E\<close> and \<open>R\<close> are
  read back unchanged.
\<close>

theorem C8_double_reversal_restores:
  assumes "reachable db"
    and "createReversalEntry env1 db E n1 d1 key1 = (Inr R, db1)"
    and "je_id R \<notin> r_id ` set (journal_entries db)"
    and "createReversalEntry env2 db1 (je_id R) n2 d2 key2 = (Inr R2, db2)"
    and "je_id R2 \<notin> r_id ` set (journal_entries db1)"
  shows "\<exists>orig. JournalRepository_findById db E = Some orig \<and>
     createJournalEntry env1 db
       \<lparr>date = d1, narration = n1, lines = reversalLines orig, reverses_entry_id = Some E\<rparr> key1
       = (Inr R, db1) \<and>
     createJournalEntry env2 db1
       \<lparr>date = d2, narration = n2, lines = reversalLines R, reverses_entry_id = Some (je_id R)\<rparr> key2
       = (Inr R2, db2) \<and>
     je_reverses_entry_id R = Some E \<and> je_reverses_entry_id R2 = Some (je_id R) \<and>
     list_all2 swapped_line (je_lines R) (je_lines orig) \<and>
     list_all2 swapped_line (je_lines R2) (je_lines R) \<and>
     list_all2 same_amounts (je_lines R2) (je_lines orig) \<and>
     je_id R \<noteq> E \<and> je_id R2 \<noteq> E \<and> je_id R2 \<noteq> je_id R \<and>
     JournalRepository_findById db2 E = Some orig \<and>
     JournalRepository_findById db2 (je_id R) = Some R \<and>
     JournalRepository_findById db2 (je_id R2) = Some R2"
proof -
  from reachable_inv[OF assms(1)] have i: "integrity db" by simp
  from reachable_createReversalEntry[OF assms(1), of env1 E n1 d1 key1] assms(2)
  have "reachable db1" by simp
  from reachable_inv[OF this] have i1: "integrity db1" by simp
  from reversal_step[OF i reachable_amounts[OF assms(1)] assms(2,3)] obtain orig where
    o: "JournalRepository_findById db E = Some orig"
    and c1: "createJournalEntry env1 db
       \<lparr>date = d1, narration = n1, lines = reversalLines orig, reverses_entry_id = Some E\<rparr> key1
       = (Inr R, db1)"
    and r1: "je_reverses_entry_id R = Some E"
    and s1: "list_all2 swapped_line (je_lines R) (je_lines orig)"
    and f1: "JournalRepository_findById db1 (je_id R) = Some R"
    and p1: "\<forall>x \<in> r_id ` set (journal_entries db).
        JournalRepository_findById db1 x = JournalRepository_findById db x"
    by blast
  from reversal_step[OF i1 reachable_amounts[OF \<open>reachable db1\<close>] assms(4,5)] f1 have
    c2: "createJournalEntry env2 db1
       \<lparr>date = d2, narration = n2, lines = reversalLines R, reverses_entry_id = Some (je_id R)\<rparr> key2
       = (Inr R2, db2)"
    and r2: "je_reverses_entry_id R2 = Some (je_id R)"
    and s2: "list_all2 swapped_line (je_lines R2) (je_lines R)"
    and f2: "JournalRepository_findById db2 (je_id R2) = Some R2"
    and p2: "\<forall>x \<in> r_id ` set (journal_entries db1).
        JournalRepository_findById db2 x = JournalRepository_findById db1 x"
    by auto
  from findById_Some[OF o] have E: "E \<in> r_id ` set (journal_entries db)" by simp
  from bspec[OF p1 E] o have o1: "JournalRepository_findById db1 E = Some orig" by simp
  from findById_Some[OF o1] have E1: "E \<in> r_id ` set (journal_entries db1)" by simp
  from findById_Some[OF f1] have R1: "je_id R \<in> r_id ` set (journal_entries db1)" by simp
  from E assms(3) have n1: "je_id R \<noteq> E" by auto
  from E1 assms(5) have n2: "je_id R2 \<noteq> E" by auto
  from R1 assms(5) have n3: "je_id R2 \<noteq> je_id R" by auto
  from bspec[OF p2 E1] o1 have o2: "JournalRepository_findById db2 E = Some orig" by simp
  from bspec[OF p2 R1] f1 have g2: "JournalRepository_findById db2 (je_id R) = Some R" by simp
  note s3 = swapped_twice[OF s2 s1]
  from o c1 c2 r1 r2 s1 s2 s3 n1 n2 n3 o2 g2 f2 show ?thesis
    by (intro exI[of _ orig] conjI)
qed

theorem C8_double_reversal_restores_witness:
  "reachable scenario_ledger \<and>
   createReversalEntry (scenario_env 13) scenario_ledger 10 ''Reversal of seed capital'' 8 None
     = (Inr reversal_of_seed, scenario_reversed) \<and>
   createReversalEntry (scenario_env 14) scenario_reversed 13 ''Seed capital again'' 9 None
     = (Inr seed_restored, scenario_restored) \<and>
   JournalRepository_findById scenario_ledger 10 = Some seed_entry \<and>
   list_all2 swapped_line (je_lines reversal_of_seed) (je_lines seed_entry) \<and>
   list_all2 same_amounts (je_lines seed_restored) (je_lines seed_entry) \<and>
   map (\<lambda>l. (debit_cents l, credit_cents l)) (je_lines seed_restored)
     = [(100000, 0), (0, 100000)] \<and>
   je_id seed_restored = 14 \<and>
   JournalRepository_findById scenario_restored 10 = Some seed_entry"
proof -
  have f: "JournalRepository_findById scenario_ledger 10 = Some seed_entry" by code_simp
  have i: "je_id reversal_of_seed = 13" "je_id seed_restored = 14"
    by (simp_all add: reversal_of_seed_def seed_restored_def)
  have m: "map (\<lambda>l. (debit_cents l, credit_cents l)) (je_lines seed_restored)
     = [(100000, 0), (0, 100000)]"
    by (simp add: seed_restored_def)
  from C8_double_reversal_restores[OF reachable_scenario_ledger first_reversal
      reversal_ids_new(1) second_reversal reversal_ids_new(2)]
    reachable_scenario_ledger first_reversal second_reversal f i m
  show ?thesis by auto
qed

end
